(* ===== verification/Records.thy ===== *)
theory Records
  imports Prelude
begin

text \<open>
  The change-data-capture record model: \<^verbatim>\<open>flow/model/record.go\<close>, the parts of
  \<^verbatim>\<open>flow/model/model.go\<close> that the pull side uses (excluded columns, the key of a record), and
  the interface \<^verbatim>\<open>Items\<close> of \<^verbatim>\<open>flow/model/record_items.go\<close> with its implementation
  \<^verbatim>\<open>PgItems\<close> (\<^verbatim>\<open>flow/model/pg_items.go\<close>). The Go code is generic in the item type and passes
  its methods through the interface; here the methods are a record that the generic
  functions take as an argument, and the locale \<open>items_contract\<close> states what the callers
  rely on.
\<close>

section \<open>Base record\<close>

record BaseRecord =
  CheckpointID :: int
  CommitTimeNano :: int
  TransactionID :: nat

definition zero_BaseRecord :: BaseRecord where
  "zero_BaseRecord = \<lparr>CheckpointID = 0, CommitTimeNano = 0, TransactionID = 0\<rparr>"

section \<open>The Items interface\<close>

text \<open>
  \<open>UpdateIfNotExists r input\<close> returns the receiver after the call and the names of the
  columns the call added. \<open>ZeroItems\<close> is Go's zero value of the item type.
\<close>

record 'i Items =
  ZeroItems :: 'i
  UpdateIfNotExists :: "'i \<Rightarrow> 'i \<Rightarrow> 'i \<times> string list"
  UpdateWithBaseRecord :: "'i \<Rightarrow> BaseRecord \<Rightarrow> 'i"
  GetBytesByColName :: "'i \<Rightarrow> string \<Rightarrow> (string, bytes) res"
  DeleteColName :: "'i \<Rightarrow> string \<Rightarrow> 'i"

locale items_contract =
  fixes ops :: "'i Items"
    and cols :: "'i \<Rightarrow> string \<rightharpoonup> 'v"
    and ok :: "'i \<Rightarrow> bool"
  assumes zero_ok: "ok (ZeroItems ops)"
    and cols_zero: "cols (ZeroItems ops) = Map.empty"
    and update_ok: "ok r \<Longrightarrow> ok i \<Longrightarrow> ok (fst (UpdateIfNotExists ops r i))"
    and cols_update: "ok r \<Longrightarrow> ok i \<Longrightarrow> cols (fst (UpdateIfNotExists ops r i)) = cols i ++ cols r"
    and updated_cols: "ok r \<Longrightarrow> ok i \<Longrightarrow>
      set (snd (UpdateIfNotExists ops r i)) = dom (cols i) - dom (cols r)"
    and delete_ok: "ok r \<Longrightarrow> ok (DeleteColName ops r c)"
    and cols_delete: "ok r \<Longrightarrow> cols (DeleteColName ops r c) = (cols r)(c := None)"
    and bytes_defined: "ok r \<Longrightarrow> (\<exists>b. GetBytesByColName ops r c = Inr b) \<longleftrightarrow> c \<in> dom (cols r)"
begin

text \<open>Columns the receiver already has keep their value; the others take the input's.\<close>

lemma update_keeps:
  assumes "ok r" and "ok i" and "cols r c = Some v"
  shows "cols (fst (UpdateIfNotExists ops r i)) c = Some v"
  using assms by (simp add: cols_update)

lemma update_fills:
  assumes "ok r" and "ok i" and "cols r c = None"
  shows "cols (fst (UpdateIfNotExists ops r i)) c = cols i c"
  using assms by (simp add: cols_update map_add_def)

lemma update_idem:
  assumes "ok r" and "ok i"
  shows "snd (UpdateIfNotExists ops (fst (UpdateIfNotExists ops r i)) i) = []"
proof -
  have "set (snd (UpdateIfNotExists ops (fst (UpdateIfNotExists ops r i)) i)) = {}"
    using assms by (simp add: updated_cols update_ok cols_update)
  then show ?thesis by simp
qed

lemma delete_all_ok: "ok r \<Longrightarrow> ok (fold (\<lambda>c s. DeleteColName ops s c) cs r)"
  by (induction cs arbitrary: r) (auto simp: delete_ok)

lemma cols_delete_all:
  "ok r \<Longrightarrow> cols (fold (\<lambda>c s. DeleteColName ops s c) cs r) x = (if x \<in> set cs then None else cols r x)"
  by (induction cs arbitrary: r) (auto simp: delete_ok cols_delete)

end

section \<open>PgItems\<close>

text \<open>Column values are byte slices; \<open>None\<close> is the nil slice (SQL NULL).\<close>

type_synonym PgItems = "(string, bytes option) gomap"

definition NewPgItems :: "nat \<Rightarrow> PgItems" where
  "NewPgItems capacity = []"

definition PgItems_AddColumn :: "PgItems \<Rightarrow> string \<Rightarrow> bytes option \<Rightarrow> PgItems" where
  "PgItems_AddColumn r col val = AList.update col val r"

definition PgItems_GetColumnValue :: "PgItems \<Rightarrow> string \<Rightarrow> bytes option" where
  "PgItems_GetColumnValue r col = (case map_of r col of None \<Rightarrow> None | Some v \<Rightarrow> v)"

fun PgItems_UpdateIfNotExists :: "PgItems \<Rightarrow> PgItems \<Rightarrow> PgItems \<times> string list" where
  "PgItems_UpdateIfNotExists r [] = (r, [])"
| "PgItems_UpdateIfNotExists r ((col, val) # input) =
     (case map_of r col of
        Some _ \<Rightarrow> PgItems_UpdateIfNotExists r input
      | None \<Rightarrow> (let (r', updatedCols) = PgItems_UpdateIfNotExists (AList.update col val r) input
                 in (r', col # updatedCols)))"

definition PgItems_UpdateWithBaseRecord :: "PgItems \<Rightarrow> BaseRecord \<Rightarrow> PgItems" where
  "PgItems_UpdateWithBaseRecord r b =
     PgItems_AddColumn
       (PgItems_AddColumn
         (PgItems_AddColumn r ''_peerdb_origin_transaction_id'' (Some (FormatUint (TransactionID b))))
         ''_peerdb_origin_checkpoint_id'' (Some (FormatInt (CheckpointID b))))
       ''_peerdb_origin_commit_time_nano'' (Some (FormatInt (CommitTimeNano b)))"

text \<open>A nil slice has no bytes.\<close>

definition PgItems_GetBytesByColName :: "PgItems \<Rightarrow> string \<Rightarrow> (string, bytes) res" where
  "PgItems_GetBytesByColName r colName = (case map_of r colName of
     None \<Rightarrow> Inl (''column name '' @ colName @ '' not found'')
   | Some None \<Rightarrow> Inr []
   | Some (Some v) \<Rightarrow> Inr v)"

definition PgItems_Len :: "PgItems \<Rightarrow> nat" where
  "PgItems_Len r = length r"

definition PgItems_DeleteColName :: "PgItems \<Rightarrow> string \<Rightarrow> PgItems" where
  "PgItems_DeleteColName r colName = AList.delete colName r"

definition PgItems_ops :: "PgItems Items" where
  "PgItems_ops = \<lparr>ZeroItems = [],
     UpdateIfNotExists = PgItems_UpdateIfNotExists,
     UpdateWithBaseRecord = PgItems_UpdateWithBaseRecord,
     GetBytesByColName = PgItems_GetBytesByColName,
     DeleteColName = PgItems_DeleteColName\<rparr>"

lemma PgItems_update_ok:
  "gomap_ok r \<Longrightarrow> gomap_ok (fst (PgItems_UpdateIfNotExists r i))"
  by (induction r i rule: PgItems_UpdateIfNotExists.induct)
     (auto split: option.splits prod.splits)

lemma PgItems_update_cols_at:
  "gomap_ok i \<Longrightarrow> map_of (fst (PgItems_UpdateIfNotExists r i)) x =
     (case map_of r x of Some v \<Rightarrow> Some v | None \<Rightarrow> map_of i x)"
proof (induction r i rule: PgItems_UpdateIfNotExists.induct)
  case (2 r col val input)
  have fresh: "map_of input col = None" using 2(3) by (simp add: map_of_None_iff)
  then show ?case using 2 by (cases "map_of r col") (auto simp: case_prod_beta split: option.splits)
qed (auto split: option.splits)

lemma PgItems_update_cols:
  "gomap_ok i \<Longrightarrow> map_of (fst (PgItems_UpdateIfNotExists r i)) = map_of i ++ map_of r"
  by (auto simp: fun_eq_iff PgItems_update_cols_at map_add_def)

lemma PgItems_updated_cols:
  "gomap_ok i \<Longrightarrow>
   set (snd (PgItems_UpdateIfNotExists r i)) = {c. map_of r c = None \<and> map_of i c \<noteq> None}"
proof (induction r i rule: PgItems_UpdateIfNotExists.induct)
  case (2 r col val input)
  have fresh: "map_of input col = None" using 2(3) by (simp add: map_of_None_iff)
  show ?case
  proof (cases "map_of r col")
    case None
    then have "set (snd (PgItems_UpdateIfNotExists r ((col, val) # input)))
        = insert col {c. map_of (AList.update col val r) c = None \<and> map_of input c \<noteq> None}"
      using 2 by (simp add: case_prod_beta)
    with None fresh show ?thesis by auto
  next
    case (Some v)
    with 2 fresh show ?thesis by auto
  qed
qed simp

lemma PgItems_updated_dom:
  "gomap_ok i \<Longrightarrow> set (snd (PgItems_UpdateIfNotExists r i)) = dom (map_of i) - dom (map_of r)"
  by (rule set_eqI) (simp only: PgItems_updated_cols mem_Collect_eq Diff_iff dom_def not_not conj_commute)

interpretation pgi: items_contract PgItems_ops map_of "\<lambda>r. gomap_ok r"
proof unfold_locales
  show "(\<exists>b. GetBytesByColName PgItems_ops r c = Inr b) \<longleftrightarrow> c \<in> dom (map_of r)"
    for r :: PgItems and c
    by (auto simp: PgItems_ops_def PgItems_GetBytesByColName_def split: option.splits)
qed (simp_all add: PgItems_ops_def PgItems_update_ok PgItems_update_cols PgItems_updated_dom
       PgItems_DeleteColName_def)

section \<open>Table schemas and schema changes\<close>

datatype TypeSystem = TypeSystem_Q | TypeSystem_PG

record FieldDescription =
  fdName :: string
  fdType :: string
  fdTypeModifier :: int
  fdNullable :: bool
  fdTypeSchemaName :: string
  fdDefaultExpr :: "string option"

record TableSchema =
  PrimaryKeyColumns :: "string list"
  IsReplicaIdentityFull :: bool
  tsSystem :: TypeSystem
  tsNullableEnabled :: bool
  tsColumns :: "FieldDescription list"

record TableSchemaDelta =
  deltaSrcTableName :: string
  deltaDstTableName :: string
  AddedColumns :: "FieldDescription list"
  deltaSystem :: TypeSystem
  deltaNullableEnabled :: bool

section \<open>Records\<close>

datatype 'i Record =
    InsertRecord (RecItems: 'i) (SourceTableName: string) (DestinationTableName: string)
      (CommitID: int) (Base: BaseRecord)
  | UpdateRecord (OldItems: 'i) (NewItems: 'i) (UnchangedToastColumns: "string set")
      (SourceTableName: string) (DestinationTableName: string) (Base: BaseRecord)
  | DeleteRecord (RecItems: 'i) (UnchangedToastColumns: "string set")
      (SourceTableName: string) (DestinationTableName: string) (Base: BaseRecord)
  | RelationRecord (SchemaDelta: TableSchemaDelta) (Base: BaseRecord)
  | MessageRecord (MsgPrefix: string) (MsgContent: string) (Base: BaseRecord)

fun Kind :: "'i Record \<Rightarrow> string" where
  "Kind (InsertRecord _ _ _ _ _) = ''insert''"
| "Kind (UpdateRecord _ _ _ _ _ _) = ''update''"
| "Kind (DeleteRecord _ _ _ _ _) = ''delete''"
| "Kind (RelationRecord _ _) = ''relation''"
| "Kind (MessageRecord _ _ _) = ''message''"

fun GetDestinationTableName :: "'i Record \<Rightarrow> string" where
  "GetDestinationTableName (InsertRecord _ _ dst _ _) = dst"
| "GetDestinationTableName (UpdateRecord _ _ _ _ dst _) = dst"
| "GetDestinationTableName (DeleteRecord _ _ _ dst _) = dst"
| "GetDestinationTableName (RelationRecord d _) = deltaDstTableName d"
| "GetDestinationTableName (MessageRecord _ _ _) = []"

fun GetSourceTableName :: "'i Record \<Rightarrow> string" where
  "GetSourceTableName (InsertRecord _ src _ _ _) = src"
| "GetSourceTableName (UpdateRecord _ _ _ src _ _) = src"
| "GetSourceTableName (DeleteRecord _ _ src _ _) = src"
| "GetSourceTableName (RelationRecord d _) = deltaSrcTableName d"
| "GetSourceTableName (MessageRecord _ _ _) = []"

text \<open>Relation and message records have no items: the method returns the zero value.\<close>

fun GetItems :: "'i Items \<Rightarrow> 'i Record \<Rightarrow> 'i" where
  "GetItems ops (InsertRecord i _ _ _ _) = i"
| "GetItems ops (UpdateRecord _ n _ _ _ _) = n"
| "GetItems ops (DeleteRecord i _ _ _ _) = i"
| "GetItems ops (RelationRecord _ _) = ZeroItems ops"
| "GetItems ops (MessageRecord _ _ _) = ZeroItems ops"

definition is_row :: "'i Record \<Rightarrow> bool" where
  "is_row r \<longleftrightarrow> is_InsertRecord r \<or> is_UpdateRecord r \<or> is_DeleteRecord r"

lemma is_row_simps [simp]:
  "is_row (InsertRecord i s d c b)" "is_row (UpdateRecord ol n u s d b)"
  "is_row (DeleteRecord i u s d b)" "\<not> is_row (RelationRecord sd b)"
  "\<not> is_row (MessageRecord p ct b)"
  by (simp_all add: is_row_def)

text \<open>Row counters are atomic 32-bit integers.\<close>

record RecordTypeCounts =
  InsertCount :: "32 word"
  UpdateCount :: "32 word"
  DeleteCount :: "32 word"

definition PopulateCountMap ::
    "'i Record \<Rightarrow> (string \<rightharpoonup> RecordTypeCounts) \<Rightarrow> (string \<rightharpoonup> RecordTypeCounts)" where
  "PopulateCountMap r m = (case r of
     InsertRecord _ _ dst _ _ \<Rightarrow>
       (case m dst of None \<Rightarrow> m | Some c \<Rightarrow> m(dst \<mapsto> c\<lparr>InsertCount := InsertCount c + 1\<rparr>))
   | UpdateRecord _ _ _ _ dst _ \<Rightarrow>
       (case m dst of None \<Rightarrow> m | Some c \<Rightarrow> m(dst \<mapsto> c\<lparr>UpdateCount := UpdateCount c + 1\<rparr>))
   | DeleteRecord _ _ _ dst _ \<Rightarrow>
       (case m dst of None \<Rightarrow> m | Some c \<Rightarrow> m(dst \<mapsto> c\<lparr>DeleteCount := DeleteCount c + 1\<rparr>))
   | RelationRecord _ _ \<Rightarrow> m
   | MessageRecord _ _ _ \<Rightarrow> m)"

section \<open>Excluded columns\<close>

record NameAndExclude =
  Exclude :: "string set"
  neName :: string

definition NewNameAndExclude :: "string \<Rightarrow> string list \<Rightarrow> NameAndExclude" where
  "NewNameAndExclude name exclude = \<lparr>Exclude = set exclude, neName = name\<rparr>"

definition zero_NameAndExclude :: NameAndExclude where
  "zero_NameAndExclude = \<lparr>Exclude = {}, neName = []\<rparr>"

section \<open>The key of a record\<close>

text \<open>
  The key is the destination table and the SHA-256 digest of the primary key columns; the
  hash function is a parameter. The columns are written to the hasher one after the other,
  so the digest is of their concatenation. A destination table without a schema is a nil
  dereference in the Go code, \<open>NilTableSchema\<close> here.
\<close>

record TableWithPkey =
  TableName :: string
  PkeyColVal :: bytes

definition zero_TableWithPkey :: TableWithPkey where
  "zero_TableWithPkey = \<lparr>TableName = [], PkeyColVal = replicate 32 (char_of (0::nat))\<rparr>"

datatype pkey_error = PrimaryKeyModifiedError string string string | NilTableSchema string

fun hash_pkeys :: "'i Items \<Rightarrow> 'i \<Rightarrow> string \<Rightarrow> string list \<Rightarrow> bytes \<Rightarrow> (pkey_error, bytes) res" where
  "hash_pkeys ops items tableName [] written = Inr written"
| "hash_pkeys ops items tableName (pkeyCol # cs) written =
     (case GetBytesByColName ops items pkeyCol of
        Inl err \<Rightarrow> Inl (PrimaryKeyModifiedError err tableName pkeyCol)
      | Inr pkeyColBytes \<Rightarrow> hash_pkeys ops items tableName cs (written @ pkeyColBytes))"

definition RecToTablePKey ::
    "(bytes \<Rightarrow> bytes) \<Rightarrow> 'i Items \<Rightarrow> (string \<rightharpoonup> TableSchema) \<Rightarrow> 'i Record \<Rightarrow> (pkey_error, TableWithPkey) res" where
  "RecToTablePKey sha256 ops tableNameSchemaMapping rec =
     (let tableName = GetDestinationTableName rec in
      case tableNameSchemaMapping tableName of
        None \<Rightarrow> Inl (NilTableSchema tableName)
      | Some schema \<Rightarrow>
          (case hash_pkeys ops (GetItems ops rec) tableName (PrimaryKeyColumns schema) [] of
             Inl e \<Rightarrow> Inl e
           | Inr written \<Rightarrow> Inr \<lparr>TableName = tableName, PkeyColVal = sha256 written\<rparr>))"

lemma hash_pkeys_Inr_iff:
  "(\<exists>b. hash_pkeys ops items t cs w = Inr b) \<longleftrightarrow>
   (\<forall>c \<in> set cs. \<exists>b. GetBytesByColName ops items c = Inr b)"
  by (induction cs arbitrary: w) (auto split: sum.splits)

lemma RecToTablePKey_table:
  "RecToTablePKey h ops m rec = Inr k \<Longrightarrow> TableName k = GetDestinationTableName rec"
  by (auto simp: RecToTablePKey_def Let_def split: option.splits sum.splits)


section \<open>Properties\<close>

text \<open>
  C19: filling the missing columns of a row from another row keeps every column the row has,
  takes the others from the other row, reports exactly the columns it added, and a second
  call adds nothing.
\<close>

theorem PgItems_backfill:
  assumes "gomap_ok r" and "gomap_ok i"
  shows "(case PgItems_UpdateIfNotExists r i of (r', added) \<Rightarrow>
     gomap_ok r' \<and> map_of r' c = (case map_of r c of Some v \<Rightarrow> Some v | None \<Rightarrow> map_of i c) \<and>
     (c \<in> set added \<longleftrightarrow> map_of r c = None \<and> map_of i c \<noteq> None) \<and>
     snd (PgItems_UpdateIfNotExists r' i) = [])"
  using pgi.update_idem [OF assms] assms
  by (simp add: case_prod_unfold PgItems_update_ok PgItems_update_cols_at PgItems_updated_cols PgItems_ops_def)

theorem PgItems_backfill_witness:
  "(case PgItems_UpdateIfNotExists [(''id'', Some ''1'')] [(''id'', Some ''2''), (''doc'', Some ''x'')] of
     (r', added) \<Rightarrow> gomap_ok r' \<and> map_of r' ''doc'' = Some (Some ''x'') \<and> ''doc'' \<in> set added \<and>
       snd (PgItems_UpdateIfNotExists r' [(''id'', Some ''2''), (''doc'', Some ''x'')]) = [])"
  using PgItems_backfill [of "[(''id'', Some ''1'')]" "[(''id'', Some ''2''), (''doc'', Some ''x'')]" "''doc''"]
  by (simp add: case_prod_unfold)

definition composite_schema :: TableSchema where
  "composite_schema = \<lparr>PrimaryKeyColumns = [''a'', ''b''], IsReplicaIdentityFull = False,
     tsSystem = TypeSystem_PG, tsNullableEnabled = False, tsColumns = []\<rparr>"

definition composite_row :: "string \<Rightarrow> string \<Rightarrow> PgItems Record" where
  "composite_row a b = InsertRecord [(''a'', Some a), (''b'', Some b)] ''s'' ''t'' 0 zero_BaseRecord"


end
