(* ===== verification/CdcStream.thy ===== *)
theory CdcStream
  imports Records
begin

text \<open>
  \<^verbatim>\<open>flow/model/cdc_stream.go\<close>: the stream between the pull side (a source connector) and the
  sync side (a destination connector). A channel is the list of the values sent on it, the
  number of them the receiver has taken, and whether it is closed; closing a closed channel
  and sending on a closed one are panics. Time is in nanoseconds.
\<close>

record CdcCheckpoint =
  cpText :: string
  cpID :: int

record 'i CDCStream =
  emptySignalClosed :: bool
  channelBuffer :: nat
  sent :: "'i Record list"
  taken :: nat
  recordsClosed :: bool
  firstRowReceivedAt :: int
  firstRowCommitTime :: int
  lastCheckpointText :: string
  SchemaDeltas :: "TableSchemaDelta list"
  lastCheckpointID :: int
  lastCheckpointSet :: bool
  needsNormalize :: bool
  streamEmpty :: bool
  emptySet :: bool
  firstRowSet :: bool

definition NewCDCStream :: "nat \<Rightarrow> 'i CDCStream" where
  "NewCDCStream buf = \<lparr>emptySignalClosed = False, channelBuffer = buf, sent = [], taken = 0,
     recordsClosed = False, firstRowReceivedAt = 0, firstRowCommitTime = 0,
     lastCheckpointText = [], SchemaDeltas = [], lastCheckpointID = 0, lastCheckpointSet = False,
     needsNormalize = False, streamEmpty = True, emptySet = False, firstRowSet = False\<rparr>"

definition UpdateLatestCheckpointID :: "'i CDCStream \<Rightarrow> int \<Rightarrow> 'i CDCStream" where
  "UpdateLatestCheckpointID r val = r\<lparr>lastCheckpointID := max (lastCheckpointID r) val\<rparr>"

definition UpdateLatestCheckpointText :: "'i CDCStream \<Rightarrow> string \<Rightarrow> 'i CDCStream" where
  "UpdateLatestCheckpointText r val = r\<lparr>lastCheckpointText := val\<rparr>"

definition GetLastCheckpoint :: "'i CDCStream \<Rightarrow> (go_panic, CdcCheckpoint) res" where
  "GetLastCheckpoint r =
     (if \<not> lastCheckpointSet r then Inl (ExplicitPanic ''last checkpoint not set, stream is still active'')
      else Inr \<lparr>cpText = lastCheckpointText r, cpID = lastCheckpointID r\<rparr>)"

section \<open>Sending a record\<close>

text \<open>
  What can wake a producer that waits on a full channel: the receiver takes a record, the
  ticker fires (a log line only), or the context is cancelled. The list of these events is
  the schedule; \<open>StillWaiting\<close> is a producer whose schedule has run out.
\<close>

datatype wait_event = ReceiverTakes | TickerFires | CtxDone

datatype 'i add_outcome =
    Added "'i CDCStream"
  | AddCancelled "'i CDCStream"
  | StillWaiting "'i CDCStream"
  | AddPanic go_panic

definition chan_send :: "'i Record \<Rightarrow> 'i CDCStream \<Rightarrow> 'i CDCStream" where
  "chan_send record r = r\<lparr>sent := sent r @ [record]\<rparr>"

fun AddRecord_wait :: "wait_event list \<Rightarrow> 'i Record \<Rightarrow> 'i CDCStream \<Rightarrow> 'i add_outcome" where
  "AddRecord_wait [] record r = StillWaiting r"
| "AddRecord_wait (ReceiverTakes # es) record r = Added (chan_send record (r\<lparr>taken := taken r + 1\<rparr>))"
| "AddRecord_wait (TickerFires # es) record r = AddRecord_wait es record r"
| "AddRecord_wait (CtxDone # es) record r = AddCancelled r"

definition mark_first_row :: "int \<Rightarrow> 'i Record \<Rightarrow> 'i CDCStream \<Rightarrow> 'i CDCStream" where
  "mark_first_row now record r =
     (if \<not> needsNormalize r \<and> is_row record then
        (let r' = r\<lparr>needsNormalize := True\<rparr> in
         if \<not> firstRowSet r' then
           r'\<lparr>firstRowSet := True, firstRowReceivedAt := now,
              firstRowCommitTime := CommitTimeNano (Base record)\<rparr>
         else r')
      else r)"

definition AddRecord :: "int \<Rightarrow> wait_event list \<Rightarrow> 'i CDCStream \<Rightarrow> 'i Record \<Rightarrow> 'i add_outcome" where
  "AddRecord now es r record =
     (let r = mark_first_row now record r in
      if recordsClosed r then AddPanic SendOnClosedChannel
      else if length (sent r) - taken r < channelBuffer r then Added (chan_send record r)
      else AddRecord_wait es record r)"

section \<open>The empty signal and closing\<close>

definition SignalAsEmpty :: "'i CDCStream \<Rightarrow> (go_panic, 'i CDCStream) res" where
  "SignalAsEmpty r =
     (let r = r\<lparr>emptySet := True\<rparr> in
      if emptySignalClosed r then Inl CloseOfClosedChannel
      else Inr (r\<lparr>emptySignalClosed := True\<rparr>))"

definition SignalAsNotEmpty :: "'i CDCStream \<Rightarrow> (go_panic, 'i CDCStream) res" where
  "SignalAsNotEmpty r =
     (let r = r\<lparr>streamEmpty := False, emptySet := True\<rparr> in
      if emptySignalClosed r then Inl CloseOfClosedChannel
      else Inr (r\<lparr>emptySignalClosed := True\<rparr>))"

text \<open>\<open>None\<close>: the receiver blocks, no signal has been given yet.\<close>

definition WaitAndCheckEmpty :: "'i CDCStream \<Rightarrow> bool option" where
  "WaitAndCheckEmpty r = (if emptySignalClosed r then Some (streamEmpty r) else None)"

definition CloseStream :: "'i CDCStream \<Rightarrow> (go_panic, 'i CDCStream) res" where
  "CloseStream r =
     (if \<not> lastCheckpointSet r then
        (let r = r\<lparr>lastCheckpointSet := True\<rparr> in
         if recordsClosed r then Inl CloseOfClosedChannel
         else
           (let r = r\<lparr>recordsClosed := True\<rparr> in
            if \<not> emptySet r then
              (let r = r\<lparr>emptySet := True\<rparr> in
               if emptySignalClosed r then Inl CloseOfClosedChannel
               else Inr (r\<lparr>emptySignalClosed := True\<rparr>))
            else Inr r))
      else Inr r)"

definition ChannelLen :: "'i CDCStream \<Rightarrow> nat" where
  "ChannelLen r = length (sent r) - taken r"

definition AddSchemaDelta :: "'i CDCStream \<Rightarrow> TableSchemaDelta \<Rightarrow> 'i CDCStream" where
  "AddSchemaDelta r delta = r\<lparr>SchemaDeltas := SchemaDeltas r @ [delta]\<rparr>"

definition NeedsNormalize :: "'i CDCStream \<Rightarrow> bool" where
  "NeedsNormalize r = needsNormalize r"

definition FirstRowTimes :: "'i CDCStream \<Rightarrow> int \<times> int \<times> bool" where
  "FirstRowTimes r = (firstRowReceivedAt r, firstRowCommitTime r, firstRowSet r)"

section \<open>Invariant\<close>

definition stream_inv :: "'i CDCStream \<Rightarrow> bool" where
  "stream_inv r \<longleftrightarrow>
     emptySignalClosed r = emptySet r \<and> recordsClosed r = lastCheckpointSet r \<and>
     firstRowSet r = needsNormalize r \<and> taken r \<le> length (sent r) \<and>
     (\<not> emptySet r \<longrightarrow> streamEmpty r) \<and> (lastCheckpointSet r \<longrightarrow> emptySet r) \<and>
     (\<forall>x \<in> set (sent r). is_row x \<longrightarrow> needsNormalize r)"

lemma stream_inv_new [simp]: "stream_inv (NewCDCStream n)"
  by (simp add: stream_inv_def NewCDCStream_def)

lemma stream_inv_checkpoint [simp]:
  "stream_inv (UpdateLatestCheckpointID r v) = stream_inv r"
  "stream_inv (UpdateLatestCheckpointText r t) = stream_inv r"
  "stream_inv (AddSchemaDelta r d) = stream_inv r"
  by (simp_all add: stream_inv_def UpdateLatestCheckpointID_def UpdateLatestCheckpointText_def
      AddSchemaDelta_def)

lemma mark_first_row_fields [simp]:
  "sent (mark_first_row n x r) = sent r" "taken (mark_first_row n x r) = taken r"
  "recordsClosed (mark_first_row n x r) = recordsClosed r"
  "channelBuffer (mark_first_row n x r) = channelBuffer r"
  "lastCheckpointID (mark_first_row n x r) = lastCheckpointID r"
  "emptySet (mark_first_row n x r) = emptySet r"
  "streamEmpty (mark_first_row n x r) = streamEmpty r"
  "emptySignalClosed (mark_first_row n x r) = emptySignalClosed r"
  "lastCheckpointSet (mark_first_row n x r) = lastCheckpointSet r"
  "SchemaDeltas (mark_first_row n x r) = SchemaDeltas r"
  "needsNormalize (mark_first_row n x r) = (needsNormalize r \<or> is_row x)"
  by (simp_all add: mark_first_row_def Let_def)

lemma stream_inv_mark: "stream_inv r \<Longrightarrow> stream_inv (mark_first_row n x r)"
  by (auto simp: stream_inv_def mark_first_row_def Let_def)

text \<open>What a successful wait does: it only appends the record and counts the taken one.\<close>

lemma AddRecord_wait_Added:
  "AddRecord_wait es x r = Added r' \<Longrightarrow> r' = chan_send x (r\<lparr>taken := taken r + 1\<rparr>)"
  by (induction es x r rule: AddRecord_wait.induct) auto

lemma AddRecord_AddedD:
  assumes "AddRecord now es r x = Added r'"
  shows "r' = chan_send x (mark_first_row now x r) \<or>
         r' = chan_send x ((mark_first_row now x r)\<lparr>taken := taken r + 1\<rparr>)"
    and "\<not> recordsClosed r"
  using assms AddRecord_wait_Added [of es x "mark_first_row now x r" r']
  by (auto simp: AddRecord_def Let_def split: if_splits)

text \<open>The fields that sending a record leaves alone, and the ones it sets.\<close>

lemma AddRecord_fields:
  assumes "AddRecord now es r x = Added r'"
  shows "sent r' = sent r @ [x]"
    and "lastCheckpointID r' = lastCheckpointID r"
    and "emptySet r' = emptySet r" and "streamEmpty r' = streamEmpty r"
    and "emptySignalClosed r' = emptySignalClosed r"
    and "recordsClosed r' = recordsClosed r"
    and "lastCheckpointSet r' = lastCheckpointSet r"
    and "SchemaDeltas r' = SchemaDeltas r"
    and "needsNormalize r' = (needsNormalize r \<or> is_row x)"
  using AddRecord_AddedD(1) [OF assms] by (auto simp: chan_send_def)

lemma stream_inv_send:
  "stream_inv (chan_send x r) \<longleftrightarrow>
     stream_inv (r\<lparr>taken := taken r - 1\<rparr>) \<and> taken r \<le> length (sent r) + 1 \<and> (is_row x \<longrightarrow> needsNormalize r)"
  by (simp add: stream_inv_def chan_send_def) linarith

lemma stream_inv_taken: "stream_inv r \<Longrightarrow> n \<le> taken r \<Longrightarrow> stream_inv (r\<lparr>taken := n\<rparr>)"
  by (simp add: stream_inv_def)

lemma AddRecord_inv:
  assumes "stream_inv r" and "AddRecord now es r x = Added r'"
  shows "stream_inv r'"
  using AddRecord_AddedD(1) [OF assms(2)]
proof
  let ?m = "mark_first_row now x r"
  have m: "stream_inv ?m" by (rule stream_inv_mark [OF assms(1)])
  then have len: "taken ?m \<le> length (sent ?m)" by (simp only: stream_inv_def)
  {
    assume "r' = chan_send x ?m"
    then show ?thesis using m len by (simp add: stream_inv_send stream_inv_taken)
  next
    assume "r' = chan_send x (?m\<lparr>taken := taken r + 1\<rparr>)"
    then show ?thesis using len stream_inv_taken [OF m, of "taken r"] by (simp add: stream_inv_send)
  }
qed

lemma AddRecord_no_panic: "\<not> recordsClosed r \<Longrightarrow> AddRecord now es r x \<noteq> AddPanic p"
proof -
  have "AddRecord_wait es x s \<noteq> AddPanic p" for s :: "'a CDCStream"
    by (induction es x s rule: AddRecord_wait.induct) auto
  then show "\<not> recordsClosed r \<Longrightarrow> AddRecord now es r x \<noteq> AddPanic p"
    by (simp add: AddRecord_def Let_def)
qed

lemma AddRecord_wait_cancelled:
  "AddRecord_wait es x r = AddCancelled r' \<or> AddRecord_wait es x r = StillWaiting r' \<Longrightarrow> r' = r"
  by (induction es x r rule: AddRecord_wait.induct) auto

lemma AddRecord_not_added:
  assumes "AddRecord now es r x = AddCancelled r' \<or> AddRecord now es r x = StillWaiting r'"
  shows "r' = mark_first_row now x r"
  using assms AddRecord_wait_cancelled [of es x "mark_first_row now x r" r']
  by (auto simp: AddRecord_def Let_def split: if_splits)

section \<open>The contract a producer relies on\<close>

text \<open>
  A sink that records can be pushed into: a push that succeeds appends exactly the pushed
  record, keeps the sink open and keeps its invariant. The client's fact is that pushing a
  list of records in order appends the list.
\<close>

locale record_sink =
  fixes push :: "'e \<Rightarrow> 's \<Rightarrow> 'r \<Rightarrow> 's option"
    and contents :: "'s \<Rightarrow> 'r list"
    and invar :: "'s \<Rightarrow> bool"
  assumes contents_push: "invar s \<Longrightarrow> push e s x = Some s' \<Longrightarrow> contents s' = contents s @ [x]"
    and invar_push: "invar s \<Longrightarrow> push e s x = Some s' \<Longrightarrow> invar s'"
begin

fun push_all :: "('e \<times> 'r) list \<Rightarrow> 's \<Rightarrow> 's option" where
  "push_all [] s = Some s"
| "push_all ((e, x) # xs) s = (case push e s x of None \<Rightarrow> None | Some s' \<Rightarrow> push_all xs s')"

lemma push_all_contents:
  "invar s \<Longrightarrow> push_all xs s = Some s' \<Longrightarrow> contents s' = contents s @ map snd xs \<and> invar s'"
proof (induction xs s rule: push_all.induct)
  case (2 e x xs s)
  then obtain t where t: "push e s x = Some t" "push_all xs t = Some s'"
    by (auto split: option.splits)
  with 2 show ?case by (auto simp: contents_push invar_push)
qed simp

end

definition stream_push :: "int \<times> wait_event list \<Rightarrow> 'i CDCStream \<Rightarrow> 'i Record \<Rightarrow> 'i CDCStream option" where
  "stream_push e r x = (case AddRecord (fst e) (snd e) r x of Added r' \<Rightarrow> Some r' | _ \<Rightarrow> None)"

interpretation ssink: record_sink stream_push sent stream_inv
  by unfold_locales (auto simp: stream_push_def AddRecord_fields AddRecord_inv split: add_outcome.splits)

section \<open>Signals and closing\<close>

lemma Signal_ok:
  assumes "stream_inv r" and "\<not> emptySet r"
  shows "SignalAsEmpty r = Inr (r\<lparr>emptySet := True, emptySignalClosed := True\<rparr>)"
    and "SignalAsNotEmpty r =
      Inr (r\<lparr>streamEmpty := False, emptySet := True, emptySignalClosed := True\<rparr>)"
  using assms by (simp_all add: SignalAsEmpty_def SignalAsNotEmpty_def stream_inv_def Let_def)

lemma Signal_twice_panics:
  "emptySignalClosed r \<Longrightarrow> SignalAsEmpty r = Inl CloseOfClosedChannel"
  "emptySignalClosed r \<Longrightarrow> SignalAsNotEmpty r = Inl CloseOfClosedChannel"
  by (simp_all add: SignalAsEmpty_def SignalAsNotEmpty_def Let_def)

lemma Signal_inv:
  "stream_inv r \<Longrightarrow> SignalAsEmpty r = Inr r' \<Longrightarrow> stream_inv r'"
  "stream_inv r \<Longrightarrow> SignalAsNotEmpty r = Inr r' \<Longrightarrow> stream_inv r'"
  by (auto simp: SignalAsEmpty_def SignalAsNotEmpty_def stream_inv_def Let_def split: if_splits)

lemma CloseStream_ok:
  assumes "stream_inv r"
  shows "\<exists>r'. CloseStream r = Inr r' \<and> stream_inv r' \<and> lastCheckpointSet r' \<and> sent r' = sent r
           \<and> lastCheckpointID r' = lastCheckpointID r \<and> WaitAndCheckEmpty r' = Some (streamEmpty r)"
  using assms by (simp add: CloseStream_def stream_inv_def WaitAndCheckEmpty_def Let_def)

lemma CloseStream_idem: "CloseStream r = Inr r' \<Longrightarrow> lastCheckpointSet r' \<Longrightarrow> CloseStream r' = Inr r'"
  by (simp add: CloseStream_def)


section \<open>The stream as a state machine\<close>

text \<open>
  Every call that changes a stream, and the receiver taking a record. A step exists only
  where the call returns: a call that panics has no step.
\<close>

inductive stream_step :: "'i CDCStream \<Rightarrow> 'i CDCStream \<Rightarrow> bool" where
  added: "AddRecord now es r x = Added r' \<Longrightarrow> stream_step r r'"
| cancelled: "AddRecord now es r x = AddCancelled r' \<Longrightarrow> stream_step r r'"
| received: "taken r < length (sent r) \<Longrightarrow> stream_step r (r\<lparr>taken := taken r + 1\<rparr>)"
| checkpoint_id: "stream_step r (UpdateLatestCheckpointID r v)"
| checkpoint_text: "stream_step r (UpdateLatestCheckpointText r t)"
| schema_delta: "stream_step r (AddSchemaDelta r d)"
| signal_empty: "SignalAsEmpty r = Inr r' \<Longrightarrow> stream_step r r'"
| signal_not_empty: "SignalAsNotEmpty r = Inr r' \<Longrightarrow> stream_step r r'"
| close: "CloseStream r = Inr r' \<Longrightarrow> stream_step r r'"

lemma CloseStream_inv: "stream_inv r \<Longrightarrow> CloseStream r = Inr r' \<Longrightarrow> stream_inv r'"
  using CloseStream_ok [of r] by auto

lemma stream_step_inv: "stream_step r r' \<Longrightarrow> stream_inv r \<Longrightarrow> stream_inv r'"
proof (induction rule: stream_step.induct)
  case (cancelled now es r x r')
  then show ?case using AddRecord_not_added [of now es r x r'] by (simp add: stream_inv_mark)
next
  case (received r)
  then show ?case by (simp add: stream_inv_def)
qed (auto intro: AddRecord_inv Signal_inv CloseStream_inv)

lemma CloseStream_fields:
  "CloseStream r = Inr r' \<Longrightarrow> sent r' = sent r \<and> lastCheckpointID r' = lastCheckpointID r"
  by (auto simp: CloseStream_def Let_def split: if_splits)

lemma stream_step_mono:
  "stream_step r r' \<Longrightarrow> lastCheckpointID r \<le> lastCheckpointID r' \<and> (\<exists>xs. sent r' = sent r @ xs)"
proof (induction rule: stream_step.induct)
  case (added now es r x r')
  then show ?case by (simp add: AddRecord_fields)
next
  case (cancelled now es r x r')
  then show ?case using AddRecord_not_added [of now es r x r'] by simp
next
  case (close r r')
  then show ?case using CloseStream_fields [of r r'] by simp
qed (auto simp: UpdateLatestCheckpointID_def UpdateLatestCheckpointText_def AddSchemaDelta_def
       SignalAsEmpty_def SignalAsNotEmpty_def Let_def split: if_splits)

lemma stream_steps_inv: "stream_step\<^sup>*\<^sup>* r r' \<Longrightarrow> stream_inv r \<Longrightarrow> stream_inv r'"
  by (induction rule: rtranclp_induct) (auto intro: stream_step_inv)

lemma stream_steps_mono:
  "stream_step\<^sup>*\<^sup>* r r' \<Longrightarrow> lastCheckpointID r \<le> lastCheckpointID r' \<and> (\<exists>xs. sent r' = sent r @ xs)"
proof (induction rule: rtranclp_induct)
  case (step s t)
  then show ?case using stream_step_mono [of s t] by auto
qed simp

section \<open>Properties\<close>

text \<open>
  C11: whatever the two sides of a stream did, closing it does not panic, releases the consumer
  that waits for the empty signal and makes the last checkpoint readable; and closing it a
  second time changes nothing.
\<close>

theorem stream_close_safe:
  assumes "stream_step\<^sup>*\<^sup>* (NewCDCStream n) r"
  shows "\<exists>r'. CloseStream r = Inr r' \<and> WaitAndCheckEmpty r' = Some (streamEmpty r) \<and>
           GetLastCheckpoint r' = Inr \<lparr>cpText = lastCheckpointText r, cpID = lastCheckpointID r\<rparr> \<and>
           CloseStream r' = Inr r' \<and> sent r' = sent r"
proof -
  have "stream_inv r" using stream_steps_inv [OF assms] by simp
  then show ?thesis
    by (simp add: CloseStream_def stream_inv_def WaitAndCheckEmpty_def GetLastCheckpoint_def Let_def)
qed

theorem stream_close_safe_witness:
  "\<exists>r'. CloseStream (UpdateLatestCheckpointID (NewCDCStream 4 :: PgItems CDCStream) 7) = Inr r' \<and>
     WaitAndCheckEmpty r' = Some (streamEmpty (UpdateLatestCheckpointID (NewCDCStream 4 :: PgItems CDCStream) 7)) \<and>
     GetLastCheckpoint r' = Inr \<lparr>cpText = lastCheckpointText (UpdateLatestCheckpointID (NewCDCStream 4 :: PgItems CDCStream) 7),
       cpID = lastCheckpointID (UpdateLatestCheckpointID (NewCDCStream 4 :: PgItems CDCStream) 7)\<rparr> \<and>
     CloseStream r' = Inr r' \<and> sent r' = sent (UpdateLatestCheckpointID (NewCDCStream 4 :: PgItems CDCStream) 7)"
  by (rule stream_close_safe [of 4]) (rule r_into_rtranclp, rule stream_step.checkpoint_id)

text \<open>
  C13: along every run of a stream the checkpoint never moves back and records once sent stay
  sent, in their order.
\<close>

theorem stream_progress:
  assumes "stream_step\<^sup>*\<^sup>* r r'"
  shows "lastCheckpointID r \<le> lastCheckpointID r' \<and> (\<exists>xs. sent r' = sent r @ xs)"
  by (rule stream_steps_mono [OF assms])

theorem stream_progress_witness:
  "lastCheckpointID (NewCDCStream 4 :: PgItems CDCStream)
      \<le> lastCheckpointID (UpdateLatestCheckpointID (NewCDCStream 4 :: PgItems CDCStream) 7) \<and>
   (\<exists>xs. sent (UpdateLatestCheckpointID (NewCDCStream 4 :: PgItems CDCStream) 7) = sent (NewCDCStream 4) @ xs)"
  by (rule stream_progress) (rule r_into_rtranclp, rule stream_step.checkpoint_id)

text \<open>\<open>first_row xs\<close>: the commit time of the first row record among \<open>xs\<close>.\<close>

definition first_row :: "'i Record list \<Rightarrow> int option" where
  "first_row xs = (case filter is_row xs of [] \<Rightarrow> None | x # _ \<Rightarrow> Some (CommitTimeNano (Base x)))"

lemma push_first_row:
  assumes "stream_inv r" and "stream_push e r x = Some r'"
    and "first_row (sent r) = (if firstRowSet r then Some (firstRowCommitTime r) else None)"
  shows "first_row (sent r') = (if firstRowSet r' then Some (firstRowCommitTime r') else None)"
proof -
  from assms(2) have a: "AddRecord (fst e) (snd e) r x = Added r'"
    by (auto simp: stream_push_def split: add_outcome.splits)
  have nn: "needsNormalize r = firstRowSet r" using assms(1) by (simp add: stream_inv_def)
  let ?m = "mark_first_row (fst e) x r"
  have f: "firstRowSet r' = firstRowSet ?m" "firstRowCommitTime r' = firstRowCommitTime ?m"
    using AddRecord_AddedD(1) [OF a] by (auto simp: chan_send_def)
  show ?thesis
    unfolding f AddRecord_fields(1) [OF a]
    using assms(3) nn
    by (cases "is_row x"; cases "filter is_row (sent r)")
       (auto simp: first_row_def mark_first_row_def Let_def split: if_splits)
qed

lemma sent_new: "sent (NewCDCStream n) = []"
  by (simp add: NewCDCStream_def)

lemma push_all_first_row:
  assumes "ssink.push_all xs r = Some r'" and "stream_inv r"
    and "first_row (sent r) = (if firstRowSet r then Some (firstRowCommitTime r) else None)"
  shows "first_row (sent r') = (if firstRowSet r' then Some (firstRowCommitTime r') else None)"
  using assms
proof (induction xs r rule: ssink.push_all.induct)
  case (2 e x xs s)
  then obtain t where t: "stream_push e s x = Some t" "ssink.push_all xs t = Some r'"
    by (auto split: option.splits)
  show ?case
    by (rule "2.IH" [OF t ssink.invar_push [OF "2.prems"(2) t(1)] push_first_row [OF "2.prems"(2) t(1) "2.prems"(3)]])
qed simp

text \<open>
  C12: pushing records into a new stream delivers exactly these records in order; the batch needs
  normalising exactly when one of them is a row, and the recorded commit time is that of the
  first row.
\<close>

theorem stream_push_batch:
  assumes "ssink.push_all xs (NewCDCStream n) = Some r"
  shows "sent r = map snd xs \<and>
         (if \<exists>x \<in> set (map snd xs). is_row x
          then NeedsNormalize r \<and> first_row (map snd xs) = Some (firstRowCommitTime r)
          else \<not> NeedsNormalize r)"
proof -
  have inv: "stream_inv r" and sent: "sent r = map snd xs"
    using ssink.push_all_contents [OF stream_inv_new assms] by (simp_all add: sent_new)
  have fr: "first_row (sent r) = (if firstRowSet r then Some (firstRowCommitTime r) else None)"
    by (rule push_all_first_row [OF assms stream_inv_new]) (simp add: NewCDCStream_def first_row_def)
  have nn: "NeedsNormalize r = firstRowSet r" using inv by (simp add: stream_inv_def NeedsNormalize_def)
  have "first_row ys = None \<longleftrightarrow> \<not> (\<exists>x \<in> set ys. is_row x)" for ys :: "'a Record list"
  proof -
    have "first_row ys = None \<longleftrightarrow> filter is_row ys = []"
      by (simp add: first_row_def split: list.split)
    then show ?thesis by (simp add: filter_empty_conv)
  qed
  from this [of "map snd xs"] show ?thesis using fr nn sent by (cases "firstRowSet r") simp_all
qed


definition stream_sample :: "((int \<times> wait_event list) \<times> PgItems Record) list" where
  "stream_sample =
     [((5, []), MessageRecord ''p'' ''m'' \<lparr>CheckpointID = 1, CommitTimeNano = 10, TransactionID = 1\<rparr>),
      ((6, [TickerFires, ReceiverTakes]),
        InsertRecord [(''id'', Some ''1'')] ''s'' ''d'' 0 \<lparr>CheckpointID = 2, CommitTimeNano = 20, TransactionID = 1\<rparr>)]"

lemma stream_sample_pushed: "\<exists>r. ssink.push_all stream_sample (NewCDCStream 1) = Some r"
  by (simp add: stream_sample_def stream_push_def AddRecord_def NewCDCStream_def mark_first_row_def
      chan_send_def Let_def)

theorem stream_push_batch_witness:
  "\<exists>r. ssink.push_all stream_sample (NewCDCStream 1) = Some r \<and> sent r = map snd stream_sample \<and>
     NeedsNormalize r \<and> firstRowCommitTime r = 20"
proof -
  obtain r where r: "ssink.push_all stream_sample (NewCDCStream 1) = Some r"
    using stream_sample_pushed by blast
  have "first_row (map snd stream_sample) = Some 20" by (simp add: stream_sample_def first_row_def)
  then show ?thesis using stream_push_batch [OF r] r by (simp add: stream_sample_def)
qed

end
