(* ===== verification/PgTypes.thy ===== *)
theory PgTypes
  imports Records
begin

text \<open>
  The type system between sources and destinations (\<^verbatim>\<open>flow/shared/types/kind.go\<close>) and the
  mapping of PostgreSQL types to it (\<^verbatim>\<open>flow/connectors/postgres/type_conversion.go\<close>,
  \<^verbatim>\<open>qvalue_convert.go\<close>, \<^verbatim>\<open>flow/pkg/postgres/oid.go\<close>). A kind is a string, as in the code.
  Which OIDs the pgx type map knows, and under which name, is the parameter \<open>TypeForOID\<close>.
\<close>

section \<open>Kinds\<close>

type_synonym QValueKind = string

abbreviation QValueKindInvalid :: QValueKind where
  "QValueKindInvalid \<equiv> ''invalid''"

abbreviation QValueKindFloat32 :: QValueKind where
  "QValueKindFloat32 \<equiv> ''float32''"

abbreviation QValueKindFloat64 :: QValueKind where
  "QValueKindFloat64 \<equiv> ''float64''"

abbreviation QValueKindInt8 :: QValueKind where
  "QValueKindInt8 \<equiv> ''int8''"

abbreviation QValueKindInt16 :: QValueKind where
  "QValueKindInt16 \<equiv> ''int16''"

abbreviation QValueKindInt32 :: QValueKind where
  "QValueKindInt32 \<equiv> ''int32''"

abbreviation QValueKindInt64 :: QValueKind where
  "QValueKindInt64 \<equiv> ''int64''"

abbreviation QValueKindInt256 :: QValueKind where
  "QValueKindInt256 \<equiv> ''int256''"

abbreviation QValueKindUInt8 :: QValueKind where
  "QValueKindUInt8 \<equiv> ''uint8''"

abbreviation QValueKindUInt16 :: QValueKind where
  "QValueKindUInt16 \<equiv> ''uint16''"

abbreviation QValueKindUInt32 :: QValueKind where
  "QValueKindUInt32 \<equiv> ''uint32''"

abbreviation QValueKindUInt64 :: QValueKind where
  "QValueKindUInt64 \<equiv> ''uint64''"

abbreviation QValueKindUInt256 :: QValueKind where
  "QValueKindUInt256 \<equiv> ''uint256''"

abbreviation QValueKindBoolean :: QValueKind where
  "QValueKindBoolean \<equiv> ''bool''"

abbreviation QValueKindQChar :: QValueKind where
  "QValueKindQChar \<equiv> ''qchar''"

abbreviation QValueKindString :: QValueKind where
  "QValueKindString \<equiv> ''string''"

abbreviation QValueKindEnum :: QValueKind where
  "QValueKindEnum \<equiv> ''enum''"

abbreviation QValueKindUint16Enum :: QValueKind where
  "QValueKindUint16Enum \<equiv> ''uint16enum''"

abbreviation QValueKindUint64Set :: QValueKind where
  "QValueKindUint64Set \<equiv> ''uint64set''"

abbreviation QValueKindTimestamp :: QValueKind where
  "QValueKindTimestamp \<equiv> ''timestamp''"

abbreviation QValueKindTimestampTZ :: QValueKind where
  "QValueKindTimestampTZ \<equiv> ''timestamptz''"

abbreviation QValueKindDate :: QValueKind where
  "QValueKindDate \<equiv> ''date''"

abbreviation QValueKindTime :: QValueKind where
  "QValueKindTime \<equiv> ''time''"

abbreviation QValueKindTimeTZ :: QValueKind where
  "QValueKindTimeTZ \<equiv> ''timetz''"

abbreviation QValueKindInterval :: QValueKind where
  "QValueKindInterval \<equiv> ''interval''"

abbreviation QValueKindNumeric :: QValueKind where
  "QValueKindNumeric \<equiv> ''numeric''"

abbreviation QValueKindBytes :: QValueKind where
  "QValueKindBytes \<equiv> ''bytes''"

abbreviation QValueKindUUID :: QValueKind where
  "QValueKindUUID \<equiv> ''uuid''"

abbreviation QValueKindJSON :: QValueKind where
  "QValueKindJSON \<equiv> ''json''"

abbreviation QValueKindJSONB :: QValueKind where
  "QValueKindJSONB \<equiv> ''jsonb''"

abbreviation QValueKindHStore :: QValueKind where
  "QValueKindHStore \<equiv> ''hstore''"

abbreviation QValueKindGeography :: QValueKind where
  "QValueKindGeography \<equiv> ''geography''"

abbreviation QValueKindGeometry :: QValueKind where
  "QValueKindGeometry \<equiv> ''geometry''"

abbreviation QValueKindPoint :: QValueKind where
  "QValueKindPoint \<equiv> ''point''"

abbreviation QValueKindCIDR :: QValueKind where
  "QValueKindCIDR \<equiv> ''cidr''"

abbreviation QValueKindINET :: QValueKind where
  "QValueKindINET \<equiv> ''inet''"

abbreviation QValueKindMacaddr :: QValueKind where
  "QValueKindMacaddr \<equiv> ''macaddr''"

abbreviation QValueKindArrayFloat32 :: QValueKind where
  "QValueKindArrayFloat32 \<equiv> ''array_float32''"

abbreviation QValueKindArrayFloat64 :: QValueKind where
  "QValueKindArrayFloat64 \<equiv> ''array_float64''"

abbreviation QValueKindArrayInt16 :: QValueKind where
  "QValueKindArrayInt16 \<equiv> ''array_int16''"

abbreviation QValueKindArrayInt32 :: QValueKind where
  "QValueKindArrayInt32 \<equiv> ''array_int32''"

abbreviation QValueKindArrayInt64 :: QValueKind where
  "QValueKindArrayInt64 \<equiv> ''array_int64''"

abbreviation QValueKindArrayString :: QValueKind where
  "QValueKindArrayString \<equiv> ''array_string''"

abbreviation QValueKindArrayEnum :: QValueKind where
  "QValueKindArrayEnum \<equiv> ''array_enum''"

abbreviation QValueKindArrayDate :: QValueKind where
  "QValueKindArrayDate \<equiv> ''array_date''"

abbreviation QValueKindArrayInterval :: QValueKind where
  "QValueKindArrayInterval \<equiv> ''array_interval''"

abbreviation QValueKindArrayTimestamp :: QValueKind where
  "QValueKindArrayTimestamp \<equiv> ''array_timestamp''"

abbreviation QValueKindArrayTimestampTZ :: QValueKind where
  "QValueKindArrayTimestampTZ \<equiv> ''array_timestamptz''"

abbreviation QValueKindArrayBoolean :: QValueKind where
  "QValueKindArrayBoolean \<equiv> ''array_bool''"

abbreviation QValueKindArrayJSON :: QValueKind where
  "QValueKindArrayJSON \<equiv> ''array_json''"

abbreviation QValueKindArrayJSONB :: QValueKind where
  "QValueKindArrayJSONB \<equiv> ''array_jsonb''"

abbreviation QValueKindArrayUUID :: QValueKind where
  "QValueKindArrayUUID \<equiv> ''array_uuid''"

abbreviation QValueKindArrayNumeric :: QValueKind where
  "QValueKindArrayNumeric \<equiv> ''array_numeric''"

definition QValueKinds :: "QValueKind list" where
  "QValueKinds = [
     QValueKindInvalid, QValueKindFloat32, QValueKindFloat64, QValueKindInt8,
     QValueKindInt16, QValueKindInt32, QValueKindInt64, QValueKindInt256, QValueKindUInt8,
     QValueKindUInt16, QValueKindUInt32, QValueKindUInt64, QValueKindUInt256,
     QValueKindBoolean, QValueKindQChar, QValueKindString, QValueKindEnum,
     QValueKindUint16Enum, QValueKindUint64Set, QValueKindTimestamp, QValueKindTimestampTZ,
     QValueKindDate, QValueKindTime, QValueKindTimeTZ, QValueKindInterval,
     QValueKindNumeric, QValueKindBytes, QValueKindUUID, QValueKindJSON, QValueKindJSONB,
     QValueKindHStore, QValueKindGeography, QValueKindGeometry, QValueKindPoint,
     QValueKindCIDR, QValueKindINET, QValueKindMacaddr, QValueKindArrayFloat32,
     QValueKindArrayFloat64, QValueKindArrayInt16, QValueKindArrayInt32,
     QValueKindArrayInt64, QValueKindArrayString, QValueKindArrayEnum, QValueKindArrayDate,
     QValueKindArrayInterval, QValueKindArrayTimestamp, QValueKindArrayTimestampTZ,
     QValueKindArrayBoolean, QValueKindArrayJSON, QValueKindArrayJSONB,
     QValueKindArrayUUID, QValueKindArrayNumeric]"

definition IsArray :: "QValueKind \<Rightarrow> bool" where
  "IsArray kind = HasPrefix kind ''array_''"

definition QValueKindToSnowflakeTypeMap :: "(QValueKind, string) gomap" where
  "QValueKindToSnowflakeTypeMap = [
     (QValueKindBoolean, ''BOOLEAN''), (QValueKindInt8, ''INTEGER''),
     (QValueKindInt16, ''INTEGER''), (QValueKindInt32, ''INTEGER''),
     (QValueKindInt64, ''INTEGER''), (QValueKindUInt8, ''INTEGER''),
     (QValueKindUInt16, ''INTEGER''), (QValueKindUInt32, ''INTEGER''),
     (QValueKindUInt64, ''INTEGER''), (QValueKindFloat32, ''FLOAT''),
     (QValueKindFloat64, ''FLOAT''), (QValueKindQChar, ''CHAR''),
     (QValueKindString, ''STRING''), (QValueKindEnum, ''STRING''),
     (QValueKindUint16Enum, ''INTEGER''), (QValueKindUint64Set, ''INTEGER''),
     (QValueKindJSON, ''VARIANT''), (QValueKindJSONB, ''VARIANT''),
     (QValueKindTimestamp, ''TIMESTAMP_NTZ''), (QValueKindTimestampTZ, ''TIMESTAMP_TZ''),
     (QValueKindInterval, ''VARIANT''), (QValueKindTime, ''TIME''),
     (QValueKindTimeTZ, ''TIME''), (QValueKindDate, ''DATE''),
     (QValueKindBytes, ''BINARY''), (QValueKindUUID, ''STRING''),
     (QValueKindInvalid, ''STRING''), (QValueKindHStore, ''VARIANT''),
     (QValueKindGeography, ''GEOGRAPHY''), (QValueKindGeometry, ''GEOMETRY''),
     (QValueKindPoint, ''GEOMETRY''), (QValueKindArrayFloat32, ''VARIANT''),
     (QValueKindArrayFloat64, ''VARIANT''), (QValueKindArrayInt32, ''VARIANT''),
     (QValueKindArrayInt64, ''VARIANT''), (QValueKindArrayInt16, ''VARIANT''),
     (QValueKindArrayString, ''VARIANT''), (QValueKindArrayEnum, ''VARIANT''),
     (QValueKindArrayDate, ''VARIANT''), (QValueKindArrayInterval, ''VARIANT''),
     (QValueKindArrayTimestamp, ''VARIANT''), (QValueKindArrayTimestampTZ, ''VARIANT''),
     (QValueKindArrayBoolean, ''VARIANT''), (QValueKindArrayJSON, ''VARIANT''),
     (QValueKindArrayJSONB, ''VARIANT''), (QValueKindArrayUUID, ''VARIANT''),
     (QValueKindArrayNumeric, ''VARIANT'')]"

definition QValueKindToClickHouseTypeMap :: "(QValueKind, string) gomap" where
  "QValueKindToClickHouseTypeMap = [
     (QValueKindBoolean, ''Bool''), (QValueKindInt8, ''Int8''),
     (QValueKindInt16, ''Int16''), (QValueKindInt32, ''Int32''),
     (QValueKindInt64, ''Int64''), (QValueKindInt256, ''Int256''),
     (QValueKindUInt8, ''UInt8''), (QValueKindUInt16, ''UInt16''),
     (QValueKindUInt32, ''UInt32''), (QValueKindUInt64, ''UInt64''),
     (QValueKindUInt256, ''UInt256''), (QValueKindFloat32, ''Float32''),
     (QValueKindFloat64, ''Float64''), (QValueKindQChar, ''FixedString(1)''),
     (QValueKindString, ''String''), (QValueKindEnum, ''LowCardinality(String)''),
     (QValueKindUint16Enum, ''UInt16''), (QValueKindUint64Set, ''UInt64''),
     (QValueKindJSON, ''String''), (QValueKindTimestamp, ''DateTime64(6)''),
     (QValueKindTimestampTZ, ''DateTime64(6)''), (QValueKindTime, ''DateTime64(6)''),
     (QValueKindTimeTZ, ''DateTime64(6)''), (QValueKindDate, ''Date32''),
     (QValueKindBytes, ''String''), (QValueKindUUID, ''UUID''),
     (QValueKindInvalid, ''String''), (QValueKindHStore, ''String''),
     (QValueKindArrayFloat32, ''Array(Float32)''),
     (QValueKindArrayFloat64, ''Array(Float64)''),
     (QValueKindArrayInt16, ''Array(Int16)''), (QValueKindArrayInt32, ''Array(Int32)''),
     (QValueKindArrayInt64, ''Array(Int64)''), (QValueKindArrayString, ''Array(String)''),
     (QValueKindArrayEnum, ''Array(LowCardinality(String))''),
     (QValueKindArrayBoolean, ''Array(Bool)''), (QValueKindArrayDate, ''Array(Date)''),
     (QValueKindArrayInterval, ''Array(String)''),
     (QValueKindArrayTimestamp, ''Array(DateTime64(6))''),
     (QValueKindArrayTimestampTZ, ''Array(DateTime64(6))''),
     (QValueKindArrayJSON, ''String''), (QValueKindArrayJSONB, ''String''),
     (QValueKindArrayUUID, ''Array(UUID)'')]"

section \<open>PostgreSQL types\<close>

type_synonym oid = "32 word"

record CustomDataType =
  cdtName :: string
  cdtType :: char
  cdtDelim :: char

definition InternalVersion_PgVectorAsFloatArray :: "32 word" where
  "InternalVersion_PgVectorAsFloatArray = 1"

definition CustomTypeToQKind :: "CustomDataType \<Rightarrow> 32 word \<Rightarrow> QValueKind" where
  "CustomTypeToQKind typeData version =
     (if cdtType typeData = CHR ''e'' then
        (if cdtDelim typeData \<noteq> char_of (0::nat) then QValueKindArrayEnum else QValueKindEnum)
      else if cdtDelim typeData \<noteq> char_of (0::nat) then QValueKindArrayString
      else if cdtName typeData = ''geometry'' then QValueKindGeometry
      else if cdtName typeData = ''geography'' then QValueKindGeography
      else if cdtName typeData = ''hstore'' then QValueKindHStore
      else if cdtName typeData \<in> {''vector'', ''halfvec'', ''sparsevec''} then
        (if version \<ge> InternalVersion_PgVectorAsFloatArray then QValueKindArrayFloat32 else QValueKindString)
      else QValueKindString)"

text \<open>The OIDs of PostgreSQL's built-in types, by the names the code uses for them.\<close>

abbreviation BoolOID :: oid where
  "BoolOID \<equiv> 16"

abbreviation Int2OID :: oid where
  "Int2OID \<equiv> 21"

abbreviation Int4OID :: oid where
  "Int4OID \<equiv> 23"

abbreviation Int8OID :: oid where
  "Int8OID \<equiv> 20"

abbreviation Float4OID :: oid where
  "Float4OID \<equiv> 700"

abbreviation Float8OID :: oid where
  "Float8OID \<equiv> 701"

abbreviation QCharOID :: oid where
  "QCharOID \<equiv> 18"

abbreviation TextOID :: oid where
  "TextOID \<equiv> 25"

abbreviation VarcharOID :: oid where
  "VarcharOID \<equiv> 1043"

abbreviation BPCharOID :: oid where
  "BPCharOID \<equiv> 1042"

abbreviation ByteaOID :: oid where
  "ByteaOID \<equiv> 17"

abbreviation JSONOID :: oid where
  "JSONOID \<equiv> 114"

abbreviation JSONBOID :: oid where
  "JSONBOID \<equiv> 3802"

abbreviation UUIDOID :: oid where
  "UUIDOID \<equiv> 2950"

abbreviation TimeOID :: oid where
  "TimeOID \<equiv> 1083"

abbreviation DateOID :: oid where
  "DateOID \<equiv> 1082"

abbreviation CIDROID :: oid where
  "CIDROID \<equiv> 650"

abbreviation MacaddrOID :: oid where
  "MacaddrOID \<equiv> 829"

abbreviation InetOID :: oid where
  "InetOID \<equiv> 869"

abbreviation TimestampOID :: oid where
  "TimestampOID \<equiv> 1114"

abbreviation TimestamptzOID :: oid where
  "TimestamptzOID \<equiv> 1184"

abbreviation NumericOID :: oid where
  "NumericOID \<equiv> 1700"

abbreviation Int2ArrayOID :: oid where
  "Int2ArrayOID \<equiv> 1005"

abbreviation Int4ArrayOID :: oid where
  "Int4ArrayOID \<equiv> 1007"

abbreviation Int8ArrayOID :: oid where
  "Int8ArrayOID \<equiv> 1016"

abbreviation PointOID :: oid where
  "PointOID \<equiv> 600"

abbreviation Float4ArrayOID :: oid where
  "Float4ArrayOID \<equiv> 1021"

abbreviation Float8ArrayOID :: oid where
  "Float8ArrayOID \<equiv> 1022"

abbreviation BoolArrayOID :: oid where
  "BoolArrayOID \<equiv> 1000"

abbreviation DateArrayOID :: oid where
  "DateArrayOID \<equiv> 1182"

abbreviation TimestampArrayOID :: oid where
  "TimestampArrayOID \<equiv> 1115"

abbreviation TimestamptzArrayOID :: oid where
  "TimestamptzArrayOID \<equiv> 1185"

abbreviation UUIDArrayOID :: oid where
  "UUIDArrayOID \<equiv> 2951"

abbreviation TextArrayOID :: oid where
  "TextArrayOID \<equiv> 1009"

abbreviation VarcharArrayOID :: oid where
  "VarcharArrayOID \<equiv> 1015"

abbreviation BPCharArrayOID :: oid where
  "BPCharArrayOID \<equiv> 1014"

abbreviation JSONArrayOID :: oid where
  "JSONArrayOID \<equiv> 199"

abbreviation JSONBArrayOID :: oid where
  "JSONBArrayOID \<equiv> 3807"

abbreviation NumericArrayOID :: oid where
  "NumericArrayOID \<equiv> 1231"

abbreviation IntervalOID :: oid where
  "IntervalOID \<equiv> 1186"

abbreviation IntervalArrayOID :: oid where
  "IntervalArrayOID \<equiv> 1187"

abbreviation TimetzOID :: oid where
  "TimetzOID \<equiv> 1266"

abbreviation XMLOID :: oid where
  "XMLOID \<equiv> 142"

abbreviation MoneyOID :: oid where
  "MoneyOID \<equiv> 790"

abbreviation TxidSnapshotOID :: oid where
  "TxidSnapshotOID \<equiv> 2970"

abbreviation TsvectorOID :: oid where
  "TsvectorOID \<equiv> 3614"

abbreviation TsqueryOID :: oid where
  "TsqueryOID \<equiv> 3615"

text \<open>The second component is the error the caller only logs: the name of an unsupported type.\<close>

definition PostgresOIDToQValueKind ::
    "(oid \<rightharpoonup> string) \<Rightarrow> oid \<Rightarrow> (oid \<rightharpoonup> CustomDataType) \<Rightarrow> 32 word \<Rightarrow> QValueKind \<times> string option" where
  "PostgresOIDToQValueKind TypeForOID recvOID customTypeMapping version =
     (if recvOID = BoolOID then (QValueKindBoolean, None)
      else if recvOID = Int2OID then (QValueKindInt16, None)
      else if recvOID = Int4OID then (QValueKindInt32, None)
      else if recvOID = Int8OID then (QValueKindInt64, None)
      else if recvOID = Float4OID then (QValueKindFloat32, None)
      else if recvOID = Float8OID then (QValueKindFloat64, None)
      else if recvOID = QCharOID then (QValueKindQChar, None)
      else if recvOID \<in> {TextOID, VarcharOID, BPCharOID} then (QValueKindString, None)
      else if recvOID = ByteaOID then (QValueKindBytes, None)
      else if recvOID = JSONOID then (QValueKindJSON, None)
      else if recvOID = JSONBOID then (QValueKindJSONB, None)
      else if recvOID = UUIDOID then (QValueKindUUID, None)
      else if recvOID = TimeOID then (QValueKindTime, None)
      else if recvOID = DateOID then (QValueKindDate, None)
      else if recvOID = CIDROID then (QValueKindCIDR, None)
      else if recvOID = MacaddrOID then (QValueKindMacaddr, None)
      else if recvOID = InetOID then (QValueKindINET, None)
      else if recvOID = TimestampOID then (QValueKindTimestamp, None)
      else if recvOID = TimestamptzOID then (QValueKindTimestampTZ, None)
      else if recvOID = NumericOID then (QValueKindNumeric, None)
      else if recvOID = Int2ArrayOID then (QValueKindArrayInt16, None)
      else if recvOID = Int4ArrayOID then (QValueKindArrayInt32, None)
      else if recvOID = Int8ArrayOID then (QValueKindArrayInt64, None)
      else if recvOID = PointOID then (QValueKindPoint, None)
      else if recvOID = Float4ArrayOID then (QValueKindArrayFloat32, None)
      else if recvOID = Float8ArrayOID then (QValueKindArrayFloat64, None)
      else if recvOID = BoolArrayOID then (QValueKindArrayBoolean, None)
      else if recvOID = DateArrayOID then (QValueKindArrayDate, None)
      else if recvOID = TimestampArrayOID then (QValueKindArrayTimestamp, None)
      else if recvOID = TimestamptzArrayOID then (QValueKindArrayTimestampTZ, None)
      else if recvOID = UUIDArrayOID then (QValueKindArrayUUID, None)
      else if recvOID \<in> {TextArrayOID, VarcharArrayOID, BPCharArrayOID} then (QValueKindArrayString, None)
      else if recvOID = JSONArrayOID then (QValueKindArrayJSON, None)
      else if recvOID = JSONBArrayOID then (QValueKindArrayJSONB, None)
      else if recvOID = NumericArrayOID then (QValueKindArrayNumeric, None)
      else if recvOID = IntervalOID then (QValueKindInterval, None)
      else if recvOID = IntervalArrayOID then (QValueKindArrayInterval, None)
      else (case TypeForOID recvOID of
          Some typeName \<Rightarrow>
            ((case customTypeMapping recvOID of
                Some typeData \<Rightarrow> CustomTypeToQKind typeData version
              | None \<Rightarrow> QValueKindString), Some typeName)
        | None \<Rightarrow>
            if recvOID = TimetzOID then (QValueKindTimeTZ, None)
            else if recvOID = PointOID then (QValueKindPoint, None)
            else (case customTypeMapping recvOID of
                Some typeData \<Rightarrow> (CustomTypeToQKind typeData version, None)
              | None \<Rightarrow> (QValueKindString, None))))"

text \<open>The method of the connector: the same, warning once per unsupported OID.\<close>

definition postgresOIDToQValueKind ::
    "(oid \<rightharpoonup> string) \<Rightarrow> oid \<Rightarrow> (oid \<rightharpoonup> CustomDataType) \<Rightarrow> 32 word \<Rightarrow> oid set \<Rightarrow> QValueKind \<times> oid set" where
  "postgresOIDToQValueKind TypeForOID recvOID customTypeMapping version hushWarnOID =
     (let (colType, err) = PostgresOIDToQValueKind TypeForOID recvOID customTypeMapping version in
      (colType, if err \<noteq> None then insert recvOID hushWarnOID else hushWarnOID))"

definition qValueKindToPostgresType :: "string \<Rightarrow> string" where
  "qValueKindToPostgresType colTypeStr =
     (if colTypeStr = QValueKindBoolean then ''BOOLEAN''
      else if colTypeStr \<in> {QValueKindInt16, QValueKindUInt16, QValueKindInt8, QValueKindUInt8} then ''SMALLINT''
      else if colTypeStr \<in> {QValueKindInt32, QValueKindUInt32} then ''INTEGER''
      else if colTypeStr \<in> {QValueKindInt64, QValueKindUInt64} then ''BIGINT''
      else if colTypeStr = QValueKindUint16Enum then ''INTEGER''
      else if colTypeStr = QValueKindUint64Set then ''BIGINT''
      else if colTypeStr = QValueKindFloat32 then ''REAL''
      else if colTypeStr = QValueKindFloat64 then ''DOUBLE PRECISION''
      else if colTypeStr = QValueKindQChar then [CHR 0x22] @ ''char'' @ [CHR 0x22]
      else if colTypeStr \<in> {QValueKindString, QValueKindEnum} then ''TEXT''
      else if colTypeStr = QValueKindBytes then ''BYTEA''
      else if colTypeStr = QValueKindJSON then ''JSON''
      else if colTypeStr = QValueKindJSONB then ''JSONB''
      else if colTypeStr = QValueKindHStore then ''HSTORE''
      else if colTypeStr = QValueKindUUID then ''UUID''
      else if colTypeStr = QValueKindArrayUUID then ''UUID[]''
      else if colTypeStr = QValueKindTime then ''TIME''
      else if colTypeStr = QValueKindTimeTZ then ''TIMETZ''
      else if colTypeStr = QValueKindDate then ''DATE''
      else if colTypeStr = QValueKindTimestamp then ''TIMESTAMP''
      else if colTypeStr = QValueKindTimestampTZ then ''TIMESTAMPTZ''
      else if colTypeStr = QValueKindNumeric then ''NUMERIC''
      else if colTypeStr = QValueKindINET then ''INET''
      else if colTypeStr = QValueKindCIDR then ''CIDR''
      else if colTypeStr = QValueKindMacaddr then ''MACADDR''
      else if colTypeStr = QValueKindArrayInt16 then ''SMALLINT[]''
      else if colTypeStr = QValueKindArrayInt32 then ''INTEGER[]''
      else if colTypeStr = QValueKindArrayInt64 then ''BIGINT[]''
      else if colTypeStr = QValueKindArrayFloat32 then ''REAL[]''
      else if colTypeStr = QValueKindArrayFloat64 then ''DOUBLE PRECISION[]''
      else if colTypeStr = QValueKindArrayDate then ''DATE[]''
      else if colTypeStr = QValueKindArrayInterval then ''TEXT[]''
      else if colTypeStr = QValueKindArrayTimestamp then ''TIMESTAMP[]''
      else if colTypeStr = QValueKindArrayTimestampTZ then ''TIMESTAMPTZ[]''
      else if colTypeStr = QValueKindArrayBoolean then ''BOOLEAN[]''
      else if colTypeStr \<in> {QValueKindArrayString, QValueKindArrayEnum} then ''TEXT[]''
      else if colTypeStr = QValueKindArrayJSON then ''JSON[]''
      else if colTypeStr = QValueKindArrayJSONB then ''JSONB[]''
      else if colTypeStr = QValueKindArrayNumeric then ''NUMERIC[]''
      else if colTypeStr = QValueKindGeography then ''GEOGRAPHY''
      else if colTypeStr = QValueKindGeometry then ''GEOMETRY''
      else if colTypeStr = QValueKindPoint then ''POINT''
      else ''TEXT'')"

definition OIDToName :: "(oid \<rightharpoonup> string) \<Rightarrow> oid \<Rightarrow> (oid \<rightharpoonup> CustomDataType) \<Rightarrow> (string, string) res" where
  "OIDToName TypeForOID oid customTypeMapping = (case TypeForOID oid of
     Some name \<Rightarrow> Inr name
   | None \<Rightarrow>
      (if oid = TimetzOID then Inr ''timetz''
       else if oid = XMLOID then Inr ''xml''
       else if oid = MoneyOID then Inr ''money''
       else if oid = TxidSnapshotOID then Inr ''txid_snapshot''
       else if oid = TsvectorOID then Inr ''tsvector''
       else if oid = TsqueryOID then Inr ''tsquery''
       else (case customTypeMapping oid of
           None \<Rightarrow> Inl (''error getting type name for '' @ FormatUint (unat oid))
         | Some typeData \<Rightarrow> Inr (cdtName typeData))))"

section \<open>Facts\<close>

lemma CustomTypeToQKind_cases:
  "CustomTypeToQKind t v \<in> {QValueKindArrayEnum, QValueKindEnum, QValueKindArrayString,
     QValueKindGeometry, QValueKindGeography, QValueKindHStore, QValueKindArrayFloat32, QValueKindString}"
  unfolding CustomTypeToQKind_def by (simp split: if_split)

lemma CustomTypeToQKind_valid: "CustomTypeToQKind t v \<in> - {QValueKindInvalid}"
  using CustomTypeToQKind_cases [of t v] by auto

lemma fst_if_in: "fst x \<in> S \<Longrightarrow> fst y \<in> S \<Longrightarrow> fst (if b then x else y) \<in> S"
  by simp

lemma PostgresOIDToQValueKind_valid:
  "fst (PostgresOIDToQValueKind T oid m v) \<in> - {QValueKindInvalid}"
proof -
  let ?V = "- {QValueKindInvalid}"
  have dflt: "fst (case T oid of
          Some typeName \<Rightarrow>
            ((case m oid of Some typeData \<Rightarrow> CustomTypeToQKind typeData v | None \<Rightarrow> QValueKindString), Some typeName)
        | None \<Rightarrow>
            if oid = TimetzOID then (QValueKindTimeTZ, None)
            else if oid = PointOID then (QValueKindPoint, None)
            else (case m oid of
                Some typeData \<Rightarrow> (CustomTypeToQKind typeData v, None)
              | None \<Rightarrow> (QValueKindString, None))) \<in> ?V"
    using CustomTypeToQKind_valid [of _ v] by (simp split: option.split)
  show ?thesis
    unfolding PostgresOIDToQValueKind_def
    by (intro fst_if_in dflt; simp)
qed

lemma IsArray_postgres_type:
  "\<forall>k \<in> set QValueKinds. IsArray k \<longleftrightarrow> HasSuffix (qValueKindToPostgresType k) ''[]''"
  by (simp add: QValueKinds_def IsArray_def qValueKindToPostgresType_def HasSuffix_def)


section \<open>Properties\<close>


end
