(* ===== verification/Utf8.thy ===== *)
theory Utf8
  imports Prelude "HOL-Library.List_Lexorder" "HOL-Library.Char_ord"
begin

text \<open>
  The parts of Go's standard library on text that the code uses beyond bytes:
  \<^verbatim>\<open>utf8.DecodeRuneInString\<close>, and the encoding of strings and of maps from strings to
  optional strings by \<^verbatim>\<open>encoding/json\<close>.
\<close>

section \<open>UTF-8\<close>

definition byte :: "char \<Rightarrow> nat" where
  "byte c = of_char c"

lemma byte_less [simp]: "byte c < 256"
  by (simp add: byte_def)

lemma byte_char_of: "n < 256 \<Longrightarrow> byte (char_of n) = n"
  by (simp add: byte_def)

lemma char_of_byte [simp]: "char_of (byte c) = c"
  by (simp add: byte_def)

definition RuneError :: nat where
  "RuneError = 0xFFFD"

definition is_cont :: "char \<Rightarrow> bool" where
  "is_cont c \<longleftrightarrow> 0x80 \<le> byte c \<and> byte c \<le> 0xBF"

text \<open>The bounds of the second byte that follows a leading byte of three or four.\<close>

definition second_lo :: "nat \<Rightarrow> nat" where
  "second_lo b0 = (if b0 = 0xE0 then 0xA0 else if b0 = 0xF0 then 0x90 else 0x80)"

definition second_hi :: "nat \<Rightarrow> nat" where
  "second_hi b0 = (if b0 = 0xED then 0x9F else if b0 = 0xF4 then 0x8F else 0xBF)"

definition second_ok :: "nat \<Rightarrow> char \<Rightarrow> bool" where
  "second_ok b0 c \<longleftrightarrow> second_lo b0 \<le> byte c \<and> byte c \<le> second_hi b0"

text \<open>
  The rune at the start of the string and the number of its bytes: \<open>(RuneError, 0)\<close> for the
  empty string, \<open>(RuneError, 1)\<close> for an invalid encoding.
\<close>

definition DecodeRuneInString :: "string \<Rightarrow> nat \<times> nat" where
  "DecodeRuneInString s = (case s of
     [] \<Rightarrow> (RuneError, 0)
   | c0 # s0 \<Rightarrow>
      (let b0 = byte c0 in
       if b0 < 0x80 then (b0, 1)
       else if b0 < 0xC2 \<or> 0xF4 < b0 then (RuneError, 1)
       else (case s0 of
           [] \<Rightarrow> (RuneError, 1)
         | c1 # s1 \<Rightarrow>
            if \<not> second_ok b0 c1 then (RuneError, 1)
            else if b0 < 0xE0 then ((b0 mod 32) * 64 + byte c1 mod 64, 2)
            else (case s1 of
                [] \<Rightarrow> (RuneError, 1)
              | c2 # s2 \<Rightarrow>
                 if \<not> is_cont c2 then (RuneError, 1)
                 else if b0 < 0xF0 then ((b0 mod 16) * 4096 + (byte c1 mod 64) * 64 + byte c2 mod 64, 3)
                 else (case s2 of
                     [] \<Rightarrow> (RuneError, 1)
                   | c3 # _ \<Rightarrow>
                      if \<not> is_cont c3 then (RuneError, 1)
                      else ((b0 mod 8) * 262144 + (byte c1 mod 64) * 4096 + (byte c2 mod 64) * 64 + byte c3 mod 64, 4))))))"

definition rune_size :: "string \<Rightarrow> nat" where
  "rune_size s = snd (DecodeRuneInString s)"

text \<open>The size is within the string, and positive unless the string is empty.\<close>

lemma rune_size_bounds: "s \<noteq> [] \<Longrightarrow> 1 \<le> rune_size s \<and> rune_size s \<le> length s"
  unfolding rune_size_def DecodeRuneInString_def Let_def
  by (cases s) (auto split: list.split)

lemma rune_size_le: "rune_size s \<le> length s"
  using rune_size_bounds [of s] by (cases "s = []") (simp_all add: rune_size_def DecodeRuneInString_def)

lemma DecodeRune_empty [simp]: "DecodeRuneInString [] = (RuneError, 0)"
  by (simp add: DecodeRuneInString_def)

lemma DecodeRune_ascii [simp]: "byte c < 0x80 \<Longrightarrow> DecodeRuneInString (c # s) = (byte c, 1)"
  by (simp add: DecodeRuneInString_def)

lemma mod_block:
  fixes x :: nat
  assumes "k * m \<le> x" and "x < k * m + m"
  shows "x mod m = x - k * m"
proof -
  have "x = (x - k * m) + k * m" using assms(1) by simp
  then have "x mod m = (x - k * m) mod m" by (metis mod_mult_self1)
  also have "\<dots> = x - k * m" using assms by simp
  finally show ?thesis .
qed

text \<open>A rune below 128 is one byte, the byte itself: no byte of a longer encoding is taken for it.\<close>

lemma DecodeRune_low:
  assumes "DecodeRuneInString s = (r, w)" and "r < 0x80"
  shows "\<exists>c t. s = c # t \<and> byte c = r \<and> w = 1"
proof (cases s)
  case (Cons c t)
  show ?thesis
  proof (cases "byte c < 0x80")
    case False
    have hi: "byte c mod 32 = byte c - 0xC0" if "0xC2 \<le> byte c" "byte c < 0xE0"
      using that mod_block [of 6 32 "byte c"] by simp
    have three: "0x80 \<le> (byte c mod 16) * 4096 + (byte x mod 64) * 64 + z"
      if "0xE0 \<le> byte c" "byte c < 0xF0" "second_ok (byte c) x" for x z
      using that mod_block [of 14 16 "byte c"] mod_block [of 2 64 "byte x"]
      by (cases "byte c = 0xE0") (auto simp: second_ok_def second_lo_def second_hi_def)
    have four: "0x80 \<le> (byte c mod 8) * 262144 + (byte x mod 64) * 4096 + y + z"
      if "0xF0 \<le> byte c" "byte c \<le> 0xF4" "second_ok (byte c) x" for x y z
      using that mod_block [of 30 8 "byte c"] mod_block [of 2 64 "byte x"]
      by (cases "byte c = 0xF0") (auto simp: second_ok_def second_lo_def second_hi_def)
    have "r \<ge> 0x80"
      using assms(1) Cons False
      by (auto simp: DecodeRuneInString_def Let_def RuneError_def hi
          split: list.splits if_splits intro!: three four)
    with assms(2) show ?thesis by simp
  qed (use assms Cons in simp)
qed (use assms in \<open>simp add: RuneError_def\<close>)


section \<open>JSON\<close>

definition hex_digit :: "nat \<Rightarrow> char" where
  "hex_digit n = ''0123456789abcdef'' ! (n mod 16)"

definition htmlSafe :: "nat \<Rightarrow> bool" where
  "htmlSafe b \<longleftrightarrow> 0x20 \<le> b \<and> b \<notin> {0x22, 0x5C, 0x3C, 0x3E, 0x26}"

definition json_escape :: "char \<Rightarrow> string" where
  "json_escape c =
     (let b = byte c in
      if b = 0x5C \<or> b = 0x22 then [CHR 0x5C, c]
      else if b = 8 then [CHR 0x5C, CHR ''b'']
      else if b = 12 then [CHR 0x5C, CHR ''f'']
      else if b = 10 then [CHR 0x5C, CHR ''n'']
      else if b = 13 then [CHR 0x5C, CHR ''r'']
      else if b = 9 then [CHR 0x5C, CHR ''t'']
      else [CHR 0x5C, CHR ''u'', CHR ''0'', CHR ''0'', hex_digit (b div 16), hex_digit b])"

function json_body :: "string \<Rightarrow> string" where
  "json_body s = (case s of
     [] \<Rightarrow> []
   | c # t \<Rightarrow>
      (if byte c < 0x80 then (if htmlSafe (byte c) then [c] else json_escape c) @ json_body t
       else
         (let (r, size) = DecodeRuneInString s in
          (if r = RuneError \<and> size = 1 then [CHR 0x5C, CHR ''u'', CHR ''f'', CHR ''f'', CHR ''f'', CHR ''d'']
           else if r = 0x2028 \<or> r = 0x2029 then [CHR 0x5C, CHR ''u'', CHR ''2'', CHR ''0'', CHR ''2'', hex_digit r]
           else take size s) @ json_body (drop (rune_size s) s))))"
  by pat_completeness auto
termination
proof (relation "measure length")
  show "(drop (rune_size s) s, s) \<in> measure length" if "s = x21 # x22" for s x21 x22
    using rune_size_bounds [of s] that by simp
qed simp_all

declare json_body.simps [simp del]

definition json_string :: "string \<Rightarrow> string" where
  "json_string s = [CHR 0x22] @ json_body s @ [CHR 0x22]"

fun json_join :: "string list \<Rightarrow> string" where
  "json_join [] = []"
| "json_join [x] = x"
| "json_join (x # y # zs) = x @ '','' @ json_join (y # zs)"

definition json_member :: "(string \<rightharpoonup> string option) \<Rightarrow> string \<Rightarrow> string" where
  "json_member m k = json_string k @ '':'' @
     (case m k of Some (Some v) \<Rightarrow> json_string v | _ \<Rightarrow> ''null'')"

text \<open>\<^verbatim>\<open>json.Marshal\<close> of a \<^verbatim>\<open>map[string]*string\<close>: the members in the order of their keys.\<close>

definition json_Marshal_map :: "(string, string option) gomap \<Rightarrow> string" where
  "json_Marshal_map m = ''{'' @ json_join (map (json_member (map_of m)) (sort (map fst m))) @ ''}''"

text \<open>The encoding is a function of the map, not of the order its entries were added in.\<close>

lemma json_Marshal_map_cong:
  assumes "gomap_ok m" and "gomap_ok m'" and "map_of m = map_of m'"
  shows "json_Marshal_map m = json_Marshal_map m'"
proof -
  have "set (map fst m) = set (map fst m')"
    using assms(3) by (metis dom_map_of_conv_image_fst image_set)
  then have "sort (map fst m) = sort (map fst m')"
    using assms(1,2) by (intro sorted_distinct_set_unique) (simp_all)
  then show ?thesis using assms(3) by (simp add: json_Marshal_map_def)
qed

text \<open>An unsafe byte is never copied: the body of a JSON string has no quote of its own.\<close>

lemma json_body_ascii:
  "byte c < 0x80 \<Longrightarrow> json_body (c # t) = (if htmlSafe (byte c) then [c] else json_escape c) @ json_body t"
  by (subst json_body.simps) simp

lemma json_body_Nil [simp]: "json_body [] = []"
  by (subst json_body.simps) simp

end
