(* ===== verification/Hstore.thy ===== *)
theory Hstore
  imports Utf8
begin

text \<open>
  \<^verbatim>\<open>flow/shared/datatypes/hstore.go\<close>: the parser of PostgreSQL's hstore output, with its
  fast path for strings without escapes. The theory shows that the parser accepts exactly
  the strings that \<^verbatim>\<open>hstore_out\<close> prints and returns the JSON of the printed pairs.
\<close>

datatype hstore_error =
    EOSInQuoted
  | ExpectedFoundEnd char
  | UnexpectedByte char char
  | UnexpectedEndOfString
  | UnexpectedEscape char
  | FoundEndInsteadOfValue

record hstoreParser =
  str :: string
  pos :: nat
  nextBackslash :: "nat option"

definition newHSP :: "string \<Rightarrow> hstoreParser" where
  "newHSP s = \<lparr>str = s, pos = 0, nextBackslash = IndexByte s (CHR 0x5C)\<rparr>"

definition atEnd :: "hstoreParser \<Rightarrow> bool" where
  "atEnd p \<longleftrightarrow> pos p \<ge> length (str p)"

definition consume :: "hstoreParser \<Rightarrow> char option \<times> hstoreParser" where
  "consume p = (if pos p \<ge> length (str p) then (None, p) else (Some (str p ! pos p), p\<lparr>pos := pos p + 1\<rparr>))"

definition consumeExpectedByte :: "char \<Rightarrow> hstoreParser \<Rightarrow> (hstore_error, hstoreParser) res" where
  "consumeExpectedByte expectedB p = (case consume p of
     (None, _) \<Rightarrow> Inl (ExpectedFoundEnd expectedB)
   | (Some nextB, p) \<Rightarrow> if nextB \<noteq> expectedB then Inl (UnexpectedByte nextB expectedB) else Inr p)"

definition consumeExpected2 :: "char \<Rightarrow> char \<Rightarrow> hstoreParser \<Rightarrow> (hstore_error, hstoreParser) res" where
  "consumeExpected2 one two p =
     (if pos p + 2 > length (str p) then Inl UnexpectedEndOfString
      else if str p ! pos p \<noteq> one then Inl (UnexpectedByte (str p ! pos p) one)
      else if str p ! (pos p + 1) \<noteq> two then Inl (UnexpectedByte (str p ! (pos p + 1)) two)
      else Inr (p\<lparr>pos := pos p + 2\<rparr>))"

text \<open>The loop that copies bytes and undoes escapes; \<open>builder\<close> is what it has written.\<close>

function unescape_loop :: "string \<Rightarrow> hstoreParser \<Rightarrow> (hstore_error, string \<times> hstoreParser) res" where
  "unescape_loop builder p = (case consume p of
     (None, _) \<Rightarrow> Inl EOSInQuoted
   | (Some nextB, p1) \<Rightarrow>
      if nextB = CHR 0x22 then Inr (builder, p1)
      else if nextB = CHR 0x5C then
        (case consume p1 of
           (None, _) \<Rightarrow> Inl EOSInQuoted
         | (Some nextB, p2) \<Rightarrow>
            if nextB \<noteq> CHR 0x5C \<and> nextB \<noteq> CHR 0x22 then Inl (UnexpectedEscape nextB)
            else unescape_loop (builder @ [nextB]) p2)
      else unescape_loop (builder @ [nextB]) p1)"
  by pat_completeness auto
termination
  by (relation "measure (\<lambda>(b, p). length (str p) - pos p)") (auto simp: consume_def split: if_splits)

declare unescape_loop.simps [simp del]

definition consumeDoubleQuotedWithEscapes :: "nat \<Rightarrow> hstoreParser \<Rightarrow> (hstore_error, string \<times> hstoreParser) res" where
  "consumeDoubleQuotedWithEscapes firstBackslash p =
     unescape_loop (take (firstBackslash - pos p) (drop (pos p) (str p))) (p\<lparr>pos := firstBackslash\<rparr>)"

definition index_from :: "char \<Rightarrow> hstoreParser \<Rightarrow> nat option" where
  "index_from c p = map_option (\<lambda>i. i + pos p) (IndexByte (drop (pos p) (str p)) c)"

definition consumeDoubleQuoted :: "hstoreParser \<Rightarrow> (hstore_error, string \<times> hstoreParser) res" where
  "consumeDoubleQuoted p = (case index_from (CHR 0x22) p of
     None \<Rightarrow> Inl EOSInQuoted
   | Some nextDoubleQuote \<Rightarrow>
      (case nextBackslash p of
         Some b \<Rightarrow>
          if b > nextDoubleQuote then
            Inr (take (nextDoubleQuote - pos p) (drop (pos p) (str p)), p\<lparr>pos := nextDoubleQuote + 1\<rparr>)
          else
            bind_res (consumeDoubleQuotedWithEscapes b p) (\<lambda>(s, p).
              Inr (s, p\<lparr>nextBackslash := index_from (CHR 0x5C) p\<rparr>))
       | None \<Rightarrow>
          Inr (take (nextDoubleQuote - pos p) (drop (pos p) (str p)), p\<lparr>pos := nextDoubleQuote + 1\<rparr>)))"

definition consumePairSeparator :: "hstoreParser \<Rightarrow> (hstore_error, hstoreParser) res" where
  "consumePairSeparator = consumeExpected2 (CHR '','') (CHR '' '')"

definition consumeKVSeparator :: "hstoreParser \<Rightarrow> (hstore_error, hstoreParser) res" where
  "consumeKVSeparator = consumeExpected2 (CHR ''='') (CHR ''>'')"

definition consumeDoubleQuotedOrNull :: "hstoreParser \<Rightarrow> (hstore_error, string option \<times> hstoreParser) res" where
  "consumeDoubleQuotedOrNull p =
     (if atEnd p then Inl FoundEndInsteadOfValue
      else
        (let nxt = str p ! pos p in
         if nxt = CHR ''N'' then
           bind_res (consumeExpected2 (CHR ''N'') (CHR ''U'') p) (\<lambda>p.
           bind_res (consumeExpected2 (CHR ''L'') (CHR ''L'') p) (\<lambda>p. Inr (None, p)))
         else if nxt \<noteq> CHR 0x22 then Inl (UnexpectedByte nxt (CHR 0x22))
         else
           bind_res (consumeDoubleQuoted (p\<lparr>pos := pos p + 1\<rparr>)) (\<lambda>(s, p). Inr (Some s, p))))"

text \<open>One iteration of the loop of \<^verbatim>\<open>ParseHstore\<close>.\<close>

definition parse_pair :: "bool \<Rightarrow> hstoreParser \<Rightarrow> (hstore_error, (string \<times> string option) \<times> hstoreParser) res" where
  "parse_pair first p =
     bind_res (if \<not> first then consumePairSeparator p else Inr p) (\<lambda>p.
     bind_res (consumeExpectedByte (CHR 0x22) p) (\<lambda>p.
     bind_res (consumeDoubleQuoted p) (\<lambda>(key, p).
     bind_res (consumeKVSeparator p) (\<lambda>p.
     bind_res (consumeDoubleQuotedOrNull p) (\<lambda>(value, p).
       Inr ((key, value), p))))))"


text \<open>
  The loop ends because every pair moves the position; a parser state in which it would not
  is \<open>None\<close> here, and \<open>ParseHstore_returns\<close> below shows that it does not occur.
\<close>

partial_function (option) parse_loop ::
    "bool \<Rightarrow> hstoreParser \<Rightarrow> (string, string option) gomap
     \<Rightarrow> (hstore_error, (string, string option) gomap) res option" where
  "parse_loop first p result =
     (if atEnd p then Some (Inr result)
      else (case parse_pair first p of
          Inl e \<Rightarrow> Some (Inl e)
        | Inr ((key, value), p) \<Rightarrow> parse_loop False p (AList.update key value result)))"

definition ParseHstore :: "string \<Rightarrow> (hstore_error, string) res option" where
  "ParseHstore s = map_option (\<lambda>r. bind_res r (\<lambda>result. Inr (json_Marshal_map result)))
     (parse_loop True (newHSP s) [])"

text \<open>
  \<open>json_Unmarshal\<close> is \<^verbatim>\<open>json.Unmarshal\<close> into a \<^verbatim>\<open>map[string]*string\<close>; \<open>None\<close> is the nil map that
  the JSON value \<^verbatim>\<open>null\<close> gives.
\<close>

definition CanonicalizeHStoreJSON ::
    "(string \<Rightarrow> (string, (string, string option) gomap option) res) \<Rightarrow> string \<Rightarrow> (string, string) res" where
  "CanonicalizeHStoreJSON json_Unmarshal s =
     bind_res (json_Unmarshal s) (\<lambda>result.
       (case result of
          None \<Rightarrow> Inl ''expected hstore JSON object''
        | Some m \<Rightarrow> Inr (json_Marshal_map m)))"

section \<open>What hstore prints\<close>

definition hs_escape :: "string \<Rightarrow> string" where
  "hs_escape x = concat (map (\<lambda>c. if c = CHR 0x22 \<or> c = CHR 0x5C then [CHR 0x5C, c] else [c]) x)"

definition hs_quote :: "string \<Rightarrow> string" where
  "hs_quote x = CHR 0x22 # hs_escape x @ [CHR 0x22]"

definition hs_value :: "string option \<Rightarrow> string" where
  "hs_value v = (case v of None \<Rightarrow> ''NULL'' | Some x \<Rightarrow> hs_quote x)"

definition hs_pair :: "string \<times> string option \<Rightarrow> string" where
  "hs_pair kv = hs_quote (fst kv) @ ''=>'' @ hs_value (snd kv)"

fun hs_rest :: "(string \<times> string option) list \<Rightarrow> string" where
  "hs_rest [] = []"
| "hs_rest (kv # kvs) = '', '' @ hs_pair kv @ hs_rest kvs"

definition hstore_out :: "(string \<times> string option) list \<Rightarrow> string" where
  "hstore_out kvs = (case kvs of [] \<Rightarrow> [] | kv # kvs \<Rightarrow> hs_pair kv @ hs_rest kvs)"

section \<open>Quoted strings\<close>

text \<open>A parser of quoted strings on the rest of the input, without the fast path.\<close>

fun quoted :: "string \<Rightarrow> (string \<times> string) option" where
  "quoted [] = None"
| "quoted (c # s) =
     (if c = CHR 0x22 then Some ([], s)
      else if c = CHR 0x5C then
        (case s of
           [] \<Rightarrow> None
         | d # t \<Rightarrow> if d = CHR 0x5C \<or> d = CHR 0x22
                   then map_option (\<lambda>(x, r). (d # x, r)) (quoted t) else None)
      else map_option (\<lambda>(x, r). (c # x, r)) (quoted s))"

lemma hs_escape_simps [simp]:
  "hs_escape [] = []"
  "hs_escape (c # x) = (if c = CHR 0x22 \<or> c = CHR 0x5C then [CHR 0x5C, c] else [c]) @ hs_escape x"
  by (simp_all add: hs_escape_def)

lemma quoted_escape: "quoted (hs_escape x @ CHR 0x22 # t) = Some (x, t)"
  by (induction x) auto

lemma quoted_SomeD: "quoted s = Some (x, t) \<Longrightarrow> s = hs_escape x @ CHR 0x22 # t"
proof (induction s arbitrary: x rule: quoted.induct)
  case (2 c s)
  consider "c = CHR 0x22" | "c = CHR 0x5C" | "c \<noteq> CHR 0x22" "c \<noteq> CHR 0x5C" by blast
  then show ?case
  proof cases
    case 1
    with "2.prems" show ?thesis by simp
  next
    case esc: 2
    with "2.prems" obtain d r y where s: "s = d # r" and d: "d = CHR 0x5C \<or> d = CHR 0x22"
      and y: "quoted r = Some (y, t)" "x = d # y"
      by (cases s) (auto split: if_splits)
    have "c \<noteq> CHR 0x22" using esc by simp
    from "2.IH"(1) [OF this esc s d y(1)] show ?thesis using esc s d y(2) by auto
  next
    case 3
    with "2.prems" obtain y where y: "quoted s = Some (y, t)" "x = c # y" by auto
    from "2.IH"(2) [OF 3 y(1)] show ?thesis using 3 y(2) by simp
  qed
qed simp

lemma quoted_iff: "quoted s = Some (x, t) \<longleftrightarrow> s = hs_escape x @ CHR 0x22 # t"
  using quoted_escape quoted_SomeD by blast

lemma quoted_None: "CHR 0x22 \<notin> set s \<Longrightarrow> quoted s = None"
  using quoted_SomeD [of s] by (cases "quoted s") auto

lemma quoted_plain:
  "CHR 0x22 \<notin> set u \<Longrightarrow> CHR 0x5C \<notin> set u \<Longrightarrow> quoted (u @ w) = map_option (\<lambda>(x, r). (u @ x, r)) (quoted w)"
  by (induction u) (auto simp: option.map_comp comp_def case_prod_unfold option.map_ident)

section \<open>The parser state\<close>

definition hrest :: "hstoreParser \<Rightarrow> string" where
  "hrest p = drop (pos p) (str p)"

definition hinv :: "hstoreParser \<Rightarrow> bool" where
  "hinv p \<longleftrightarrow> pos p \<le> length (str p) \<and> nextBackslash p = index_from (CHR 0x5C) p"

definition moved :: "hstoreParser \<Rightarrow> string \<Rightarrow> hstoreParser \<Rightarrow> bool" where
  "moved p t p' \<longleftrightarrow> hinv p' \<and> str p' = str p \<and> hrest p' = t"

lemma consume_rest:
  "consume p = (case hrest p of [] \<Rightarrow> (None, p) | c # t \<Rightarrow> (Some c, p\<lparr>pos := pos p + 1\<rparr>))"
proof (cases "pos p < length (str p)")
  case True
  then have "drop (pos p) (str p) = str p ! pos p # drop (pos p + 1) (str p)"
    by (simp add: Cons_nth_drop_Suc)
  with True show ?thesis by (simp add: consume_def hrest_def)
qed (simp add: consume_def hrest_def)

lemma hrest_step: "hrest p = u @ t \<Longrightarrow> hrest (p\<lparr>pos := pos p + length u\<rparr>) = t"
  using drop_drop [of "length u" "pos p" "str p"] by (simp add: hrest_def add.commute)

lemma hrest_step1 [simp]: "hrest p = c # t \<Longrightarrow> hrest (p\<lparr>pos := Suc (pos p)\<rparr>) = t"
  using hrest_step [of p "[c]" t] by simp

lemma hrest_len: "pos p \<le> length (str p) \<Longrightarrow> length (str p) = pos p + length (hrest p)"
  by (simp add: hrest_def)

lemma hinv_skip:
  assumes "hinv p" and "hrest p = u @ t" and "CHR 0x5C \<notin> set u"
  shows "moved p t (p\<lparr>pos := pos p + length u\<rparr>)"
proof -
  have r: "drop (pos p + length u) (str p) = t"
    using hrest_step [OF assms(2)] by (simp add: hrest_def)
  have "IndexByte (u @ t) (CHR 0x5C) = map_option (\<lambda>i. i + length u) (IndexByte t (CHR 0x5C))"
    using assms(3) by (induction u) (auto simp: option.map_comp comp_def option.map_ident)
  then have "index_from (CHR 0x5C) p = index_from (CHR 0x5C) (p\<lparr>pos := pos p + length u\<rparr>)"
    using assms(2) r
    by (simp add: index_from_def hrest_def option.map_comp comp_def ac_simps)
  moreover have "pos p + length u \<le> length (str p)"
    using assms(1,2) hrest_len [of p] by (simp add: hinv_def)
  ultimately show ?thesis using assms(1) r by (simp add: moved_def hinv_def hrest_def index_from_def)
qed


lemma unescape_loop_rest:
  "unescape_loop b p = (case hrest p of
     [] \<Rightarrow> Inl EOSInQuoted
   | c # s \<Rightarrow>
      if c = CHR 0x22 then Inr (b, p\<lparr>pos := pos p + 1\<rparr>)
      else if c = CHR 0x5C then
        (case s of
           [] \<Rightarrow> Inl EOSInQuoted
         | d # t \<Rightarrow> if d \<noteq> CHR 0x5C \<and> d \<noteq> CHR 0x22 then Inl (UnexpectedEscape d)
                   else unescape_loop (b @ [d]) (p\<lparr>pos := pos p + 2\<rparr>))
      else unescape_loop (b @ [c]) (p\<lparr>pos := pos p + 1\<rparr>))"
  by (subst unescape_loop.simps) (simp add: consume_rest split: list.split)

definition unescaped :: "string \<Rightarrow> hstoreParser \<Rightarrow> (string \<times> string) option \<Rightarrow> bool" where
  "unescaped b p q \<longleftrightarrow> (case q of
     None \<Rightarrow> \<exists>e. unescape_loop b p = Inl e
   | Some (x, t) \<Rightarrow> unescape_loop b p = Inr (b @ x, p\<lparr>pos := length (str p) - length t\<rparr>))"

lemma unescape_loop_spec:
  "pos p \<le> length (str p) \<Longrightarrow> hrest p = s \<Longrightarrow> unescaped b p (quoted s)"
proof (induction s arbitrary: b p rule: quoted.induct)
  case 1
  then show ?case by (simp add: unescaped_def unescape_loop_rest)
next
  case (2 c s)
  have len: "length (str p) = pos p + Suc (length s)" using hrest_len [OF "2.prems"(1)] "2.prems"(2) by simp
  consider (qu) "c = CHR 0x22" | (bs) "c = CHR 0x5C" | (other) "c \<noteq> CHR 0x22" "c \<noteq> CHR 0x5C" by blast
  then show ?case
  proof cases
    case qu
    with len show ?thesis by (simp add: unescaped_def unescape_loop_rest [of b p] "2.prems")
  next
    case other
    let ?p = "p\<lparr>pos := pos p + 1\<rparr>"
    have loop: "unescape_loop b p = unescape_loop (b @ [c]) ?p"
      using other by (simp add: unescape_loop_rest [of b p] "2.prems")
    have "unescaped (b @ [c]) ?p (quoted s)"
      using "2.IH"(2) [OF other] len "2.prems"(2) by simp
    then show ?thesis using other loop by (auto simp: unescaped_def split: option.splits)
  next
    case bs
    show ?thesis
    proof (cases s)
      case (Cons d r)
      show ?thesis
      proof (cases "d = CHR 0x5C \<or> d = CHR 0x22")
        case True
        let ?p = "p\<lparr>pos := pos p + 2\<rparr>"
        have loop: "unescape_loop b p = unescape_loop (b @ [d]) ?p"
          using bs Cons True by (auto simp: unescape_loop_rest [of b p] "2.prems")
        have "hrest ?p = r" using hrest_step [of p "[c, d]" r] "2.prems"(2) Cons by simp
        moreover have "c \<noteq> CHR 0x22" using bs by simp
        ultimately have "unescaped (b @ [d]) ?p (quoted r)"
          using "2.IH"(1) [OF _ bs Cons True, of ?p] len Cons by simp
        then show ?thesis using bs Cons True loop by (auto simp: unescaped_def split: option.splits)
      qed (use bs Cons in \<open>simp add: unescaped_def unescape_loop_rest [of b p] "2.prems"\<close>)
    qed (use bs in \<open>simp add: unescaped_def unescape_loop_rest [of b p] "2.prems"\<close>)
  qed
qed


lemma index_from_SomeD:
  assumes "index_from c p = Some j"
  obtains u t where "hrest p = u @ c # t" and "c \<notin> set u" and "j = pos p + length u"
proof -
  from assms obtain i where i: "IndexByte (hrest p) c = Some i" "j = i + pos p"
    by (auto simp: index_from_def hrest_def)
  from IndexByte_SomeD [OF i(1)] have
    "hrest p = take i (hrest p) @ c # drop (Suc i) (hrest p)" "c \<notin> set (take i (hrest p))"
    "length (take i (hrest p)) = i"
    by (auto simp: id_take_nth_drop)
  with i(2) show thesis by (intro that [of "take i (hrest p)" "drop (Suc i) (hrest p)"]) simp_all
qed

lemma index_from_None: "index_from c p = None \<longleftrightarrow> c \<notin> set (hrest p)"
  by (simp add: index_from_def hrest_def IndexByte_None_iff)

definition cdq_ok :: "hstoreParser \<Rightarrow> (string \<times> string) option \<Rightarrow> bool" where
  "cdq_ok p q \<longleftrightarrow> (case q of
     None \<Rightarrow> \<exists>e. consumeDoubleQuoted p = Inl e
   | Some (x, t) \<Rightarrow> \<exists>p'. consumeDoubleQuoted p = Inr (x, p') \<and> moved p t p')"

lemma cdq_fast:
  assumes "hinv p" and "hrest p = u @ CHR 0x22 # t" and "CHR 0x22 \<notin> set u" and "CHR 0x5C \<notin> set u"
    and "consumeDoubleQuoted p =
      Inr (take (pos p + length u - pos p) (drop (pos p) (str p)), p\<lparr>pos := pos p + length u + 1\<rparr>)"
  shows "cdq_ok p (quoted (hrest p))"
proof -
  have "quoted (hrest p) = Some (u, t)" using assms(2-4) by (simp add: quoted_plain)
  moreover have "moved p t (p\<lparr>pos := pos p + length u + 1\<rparr>)"
    using hinv_skip [of p "u @ [CHR 0x22]" t] assms(1,2,4) by simp
  moreover have "take (length u) (drop (pos p) (str p)) = u" using assms(2) by (simp add: hrest_def)
  ultimately show ?thesis using assms(5) by (simp add: cdq_ok_def)
qed

lemma cdq_slow:
  assumes "hinv p" and "hrest p = u @ CHR 0x5C # w" and "CHR 0x22 \<notin> set u" and "CHR 0x5C \<notin> set u"
    and cdq: "consumeDoubleQuoted p = bind_res (consumeDoubleQuotedWithEscapes (pos p + length u) p) (\<lambda>(s, p).
              Inr (s, p\<lparr>nextBackslash := index_from (CHR 0x5C) p\<rparr>))"
  shows "cdq_ok p (quoted (hrest p))"
proof -
  let ?p = "p\<lparr>pos := pos p + length u\<rparr>"
  have rest: "hrest ?p = CHR 0x5C # w" by (rule hrest_step [OF assms(2)])
  have len: "length (str p) = pos p + length (hrest p)" using assms(1) hrest_len by (simp add: hinv_def)
  then have "pos ?p \<le> length (str ?p)" using assms(2) by simp
  from unescape_loop_spec [OF this rest] have loop: "unescaped u ?p (quoted (CHR 0x5C # w))" .
  have pre: "take (length u) (drop (pos p) (str p)) = u" using assms(2) by (simp add: hrest_def)
  have q: "quoted (hrest p) = map_option (\<lambda>(x, r). (u @ x, r)) (quoted (CHR 0x5C # w))"
    unfolding assms(2) by (rule quoted_plain [OF assms(3,4)])
  show ?thesis
  proof (cases "quoted (CHR 0x5C # w)")
    case None
    with loop q pre show ?thesis
      by (auto simp: cdq_ok_def cdq unescaped_def consumeDoubleQuotedWithEscapes_def)
  next
    case (Some a)
    then obtain x t where xt: "quoted (CHR 0x5C # w) = Some (x, t)" by (cases a) auto
    have suf: "hrest p = (u @ hs_escape x @ [CHR 0x22]) @ t" using quoted_SomeD [OF xt] assms(2) by simp
    have at_t: "length (str p) - length t = pos p + length (u @ hs_escape x @ [CHR 0x22])"
      using len suf by simp
    let ?q = "p\<lparr>pos := length (str p) - length t\<rparr>"
    have "hrest ?q = t" unfolding at_t by (rule hrest_step [OF suf])
    then have "moved p t (?q\<lparr>nextBackslash := index_from (CHR 0x5C) ?q\<rparr>)"
      by (simp add: moved_def hinv_def hrest_def index_from_def)
    then show ?thesis using loop q pre xt
      by (simp add: cdq_ok_def cdq unescaped_def consumeDoubleQuotedWithEscapes_def)
  qed
qed

lemma consumeDoubleQuoted_spec:
  assumes inv: "hinv p"
  shows "cdq_ok p (quoted (hrest p))"
proof (cases "index_from (CHR 0x22) p")
  case None
  then have "quoted (hrest p) = None" by (simp add: quoted_None index_from_None)
  with None show ?thesis by (simp add: cdq_ok_def consumeDoubleQuoted_def)
next
  case (Some j)
  from Some obtain u t where u: "hrest p = u @ CHR 0x22 # t" "CHR 0x22 \<notin> set u" "j = pos p + length u"
    by (rule index_from_SomeD)
  have nb: "nextBackslash p = index_from (CHR 0x5C) p" using inv by (simp add: hinv_def)
  show ?thesis
  proof (cases "index_from (CHR 0x5C) p")
    case None
    then have "CHR 0x5C \<notin> set u" using u(1) by (simp add: index_from_None)
    then show ?thesis using None Some nb u
      by (intro cdq_fast [OF inv u(1,2)]) (simp_all add: consumeDoubleQuoted_def)
  next
    case b: (Some b)
    from b obtain v w where v: "hrest p = v @ CHR 0x5C # w" "CHR 0x5C \<notin> set v" "b = pos p + length v"
      by (rule index_from_SomeD)
    show ?thesis
    proof (cases "b > j")
      case True
      then have "length u < length v" using u(3) v(3) by simp
      then have "take (length u) (hrest p) = take (length u) v" unfolding v(1) by simp
      then have "u = take (length u) v" unfolding u(1) by simp
      then have "CHR 0x5C \<notin> set u" using v(2) by (metis in_set_takeD)
      then show ?thesis using True Some b nb u
        by (intro cdq_fast [OF inv u(1,2)]) (simp_all add: consumeDoubleQuoted_def)
    next
      case False
      then have "length v \<le> length u" using u(3) v(3) by simp
      then have "take (length v) (hrest p) = take (length v) u" unfolding u(1) by simp
      then have "v = take (length v) u" unfolding v(1) by simp
      then have "CHR 0x22 \<notin> set v" using u(2) by (metis in_set_takeD)
      then show ?thesis using False Some b nb v
        by (intro cdq_slow [OF inv v(1) _ v(2)]) (simp_all add: consumeDoubleQuoted_def)
    qed
  qed
qed


section \<open>The other tokens\<close>

lemma consumeExpectedByte_iff:
  assumes "hinv p" and "c \<noteq> CHR 0x5C"
  shows "consumeExpectedByte c p = Inr p' \<longleftrightarrow> (\<exists>t. hrest p = c # t) \<and> p' = p\<lparr>pos := pos p + 1\<rparr>"
  by (auto simp: consumeExpectedByte_def consume_rest split: list.splits if_splits)

lemma consumeExpected2_iff:
  assumes "hinv p"
  shows "consumeExpected2 a b p = Inr p' \<longleftrightarrow> (\<exists>t. hrest p = a # b # t) \<and> p' = p\<lparr>pos := pos p + 2\<rparr>"
proof -
  have len: "length (str p) = pos p + length (hrest p)" using assms hrest_len by (simp add: hinv_def)
  have nth: "str p ! (pos p + i) = hrest p ! i" for i using assms by (simp add: hrest_def hinv_def)
  show ?thesis
  proof (cases "length (hrest p) < 2")
    case True
    then show ?thesis using len by (auto simp: consumeExpected2_def)
  next
    case False
    then obtain x y t where r: "hrest p = x # y # t" by (metis One_nat_def Suc_1 length_Cons less_Suc_eq list.exhaust list.size(3) zero_less_Suc)
    then show ?thesis using len nth [of 0] nth [of 1] by (auto simp: consumeExpected2_def)
  qed
qed

lemma moved_trans: "moved p s q \<Longrightarrow> moved q t r \<Longrightarrow> moved p t r"
  by (simp add: moved_def)

lemma moved_hinv: "moved p t q \<Longrightarrow> hinv q"
  by (simp add: moved_def)

lemma moved_hrest: "moved p t q \<Longrightarrow> hrest q = t"
  by (simp add: moved_def)

lemma moved_skip1: "hinv p \<Longrightarrow> hrest p = c # t \<Longrightarrow> c \<noteq> CHR 0x5C \<Longrightarrow> moved p t (p\<lparr>pos := Suc (pos p)\<rparr>)"
  using hinv_skip [of p "[c]" t] by simp

lemma moved_skip2:
  "hinv p \<Longrightarrow> hrest p = a # b # t \<Longrightarrow> a \<noteq> CHR 0x5C \<Longrightarrow> b \<noteq> CHR 0x5C \<Longrightarrow> moved p t (p\<lparr>pos := Suc (Suc (pos p))\<rparr>)"
  using hinv_skip [of p "[a, b]" t] by simp

text \<open>
  \<open>reads f pr\<close>: a parsing function \<open>f\<close> accepts exactly the inputs that start with the print
  \<open>pr x\<close> of a value, returns that value and moves past it.
\<close>

definition reads :: "(hstoreParser \<Rightarrow> (hstore_error, 'a \<times> hstoreParser) res) \<Rightarrow> ('a \<Rightarrow> string) \<Rightarrow> bool" where
  "reads f pr \<longleftrightarrow> (\<forall>p. hinv p \<longrightarrow>
     (\<forall>x p'. f p = Inr (x, p') \<longrightarrow> hrest p = pr x @ hrest p' \<and> moved p (hrest p') p') \<and>
     (\<forall>x t. hrest p = pr x @ t \<longrightarrow> (\<exists>p'. f p = Inr (x, p') \<and> moved p t p')))"

lemma readsD1: "reads f pr \<Longrightarrow> hinv p \<Longrightarrow> f p = Inr (x, p') \<Longrightarrow> hrest p = pr x @ hrest p' \<and> moved p (hrest p') p'"
  by (simp add: reads_def)

lemma readsD2: "reads f pr \<Longrightarrow> hinv p \<Longrightarrow> hrest p = pr x @ t \<Longrightarrow> \<exists>p'. f p = Inr (x, p') \<and> moved p t p'"
  by (simp add: reads_def)

lemma reads_seq:
  assumes f: "reads f pf" and g: "reads g pg"
  shows "reads (\<lambda>p. bind_res (f p) (\<lambda>(x, p). bind_res (g p) (\<lambda>(y, p). Inr ((x, y), p))))
           (\<lambda>(x, y). pf x @ pg y)"
  unfolding reads_def
proof (intro allI impI conjI)
  fix p xy p'
  assume inv: "hinv p" and run: "bind_res (f p) (\<lambda>(x, p). bind_res (g p) (\<lambda>(y, p). Inr ((x, y), p))) = Inr (xy, p')"
  from run obtain x y q where x: "f p = Inr (x, q)" and y: "g q = Inr (y, p')" and xy: "xy = (x, y)"
    by (auto simp: res_iff)
  note a = readsD1 [OF f inv x]
  have "hinv q" using a by (auto simp: moved_def)
  note b = readsD1 [OF g this y]
  from a b show "hrest p = (case xy of (x, y) \<Rightarrow> pf x @ pg y) @ hrest p'" by (simp add: xy)
  from a b show "moved p (hrest p') p'" using moved_trans by blast
next
  fix p xy t
  assume inv: "hinv p" and r: "hrest p = (case xy of (x, y) \<Rightarrow> pf x @ pg y) @ t"
  obtain x y where xy: "xy = (x, y)" by (cases xy)
  with r have "hrest p = pf x @ pg y @ t" by simp
  from readsD2 [OF f inv this] obtain q where q: "f p = Inr (x, q)" "moved p (pg y @ t) q" by blast
  from readsD2 [OF g moved_hinv [OF q(2)] moved_hrest [OF q(2)]] obtain p' where
    "g q = Inr (y, p')" "moved q t p'" by blast
  with q xy moved_trans show "\<exists>p'. bind_res (f p) (\<lambda>(x, p). bind_res (g p) (\<lambda>(y, p). Inr ((x, y), p))) = Inr (xy, p') \<and> moved p t p'"
    by (auto intro!: exI [of _ p'])
qed


lemma reads_map:
  assumes f: "reads f pf" and pg: "\<And>x. pg (h x) = pf x" and k: "\<And>y. h (k y) = y"
  shows "reads (\<lambda>p. bind_res (f p) (\<lambda>(x, p). Inr (h x, p))) pg"
  unfolding reads_def
proof (intro allI impI conjI)
  fix p y p'
  assume inv: "hinv p" and run: "bind_res (f p) (\<lambda>(x, p). Inr (h x, p)) = Inr (y, p')"
  from run obtain x where x: "f p = Inr (x, p')" "y = h x" by (auto simp: res_iff)
  from readsD1 [OF f inv x(1)] show "hrest p = pg y @ hrest p'" and "moved p (hrest p') p'"
    by (simp_all add: x(2) pg)
next
  fix p y t
  assume inv: "hinv p" and r: "hrest p = pg y @ t"
  have "hrest p = pf (k y) @ t" using r pg [of "k y"] k by simp
  from readsD2 [OF f inv this] k show "\<exists>p'. bind_res (f p) (\<lambda>(x, p). Inr (h x, p)) = Inr (y, p') \<and> moved p t p'"
    by auto
qed

lemma reads_cdq: "reads consumeDoubleQuoted (\<lambda>x. hs_escape x @ [CHR 0x22])"
  unfolding reads_def
proof (intro allI impI conjI)
  fix p x p'
  assume inv: "hinv p" and run: "consumeDoubleQuoted p = Inr (x, p')"
  from consumeDoubleQuoted_spec [OF inv] run have "quoted (hrest p) = Some (x, hrest p')" and m: "moved p (hrest p') p'"
    by (auto simp: cdq_ok_def moved_def split: option.splits)
  then show "hrest p = (hs_escape x @ [CHR 0x22]) @ hrest p'" using quoted_SomeD by fastforce
  show "moved p (hrest p') p'" by (rule m)
next
  fix p x t
  assume inv: "hinv p" and r: "hrest p = (hs_escape x @ [CHR 0x22]) @ t"
  then have "quoted (hrest p) = Some (x, t)" by (simp add: quoted_escape)
  with consumeDoubleQuoted_spec [OF inv] show "\<exists>p'. consumeDoubleQuoted p = Inr (x, p') \<and> moved p t p'"
    by (simp add: cdq_ok_def)
qed

text \<open>Tokens without a value.\<close>

definition hs_unit :: "(hstoreParser \<Rightarrow> (hstore_error, hstoreParser) res) \<Rightarrow> hstoreParser \<Rightarrow> (hstore_error, unit \<times> hstoreParser) res" where
  "hs_unit f p = bind_res (f p) (\<lambda>p. Inr ((), p))"

lemma reads_token:
  assumes tok: "\<And>p p'. hinv p \<Longrightarrow> f p = Inr p' \<longleftrightarrow> (\<exists>t. hrest p = u @ t) \<and> p' = p\<lparr>pos := pos p + length u\<rparr>"
    and plain: "CHR 0x5C \<notin> set u"
  shows "reads (hs_unit f) (\<lambda>_. u)"
  unfolding reads_def
proof (intro allI impI conjI)
  fix p :: hstoreParser and x p'
  assume inv: "hinv p" and run: "hs_unit f p = Inr (x, p')"
  from run have "f p = Inr p'" by (auto simp: hs_unit_def res_iff)
  then obtain t where t: "hrest p = u @ t" and p': "p' = p\<lparr>pos := pos p + length u\<rparr>" using tok [OF inv] by blast
  have m: "moved p t p'" unfolding p' by (rule hinv_skip [OF inv t plain])
  from moved_hrest [OF m] m t show "hrest p = u @ hrest p'" and "moved p (hrest p') p'" by simp_all
next
  fix p :: hstoreParser and x :: unit and t
  assume inv: "hinv p" and t: "hrest p = u @ t"
  let ?q = "p\<lparr>pos := pos p + length u\<rparr>"
  have "f p = Inr ?q" using tok [OF inv] t by blast
  then have "hs_unit f p = Inr (x, ?q)" by (simp add: hs_unit_def)
  with hinv_skip [OF inv t plain] show "\<exists>p'. hs_unit f p = Inr (x, p') \<and> moved p t p'" by blast
qed

lemma reads_expected2:
  assumes "a \<noteq> CHR 0x5C" and "b \<noteq> CHR 0x5C"
  shows "reads (hs_unit (consumeExpected2 a b)) (\<lambda>_. [a, b])"
  by (rule reads_token) (use assms in \<open>simp_all add: consumeExpected2_iff\<close>)

lemma reads_expected1:
  assumes "c \<noteq> CHR 0x5C"
  shows "reads (hs_unit (consumeExpectedByte c)) (\<lambda>_. [c])"
  by (rule reads_token) (use assms in \<open>simp_all add: consumeExpectedByte_iff\<close>)

lemma reads_nothing: "reads (hs_unit Inr) (\<lambda>_. [])"
  by (simp add: reads_def hs_unit_def moved_def)

definition hs_seq ::
    "(hstoreParser \<Rightarrow> (hstore_error, 'a \<times> hstoreParser) res) \<Rightarrow> (hstoreParser \<Rightarrow> (hstore_error, 'b \<times> hstoreParser) res)
     \<Rightarrow> hstoreParser \<Rightarrow> (hstore_error, ('a \<times> 'b) \<times> hstoreParser) res" where
  "hs_seq f g p = bind_res (f p) (\<lambda>(x, p). bind_res (g p) (\<lambda>(y, p). Inr ((x, y), p)))"

lemma reads_hs_seq: "reads f pf \<Longrightarrow> reads g pg \<Longrightarrow> reads (hs_seq f g) (\<lambda>(x, y). pf x @ pg y)"
  using reads_seq [of f pf g pg] by (simp add: hs_seq_def [abs_def])

lemma reads_cong: "reads f pf \<Longrightarrow> (\<And>x. pf x = pg x) \<Longrightarrow> reads f pg"
  by (simp add: reads_def)

lemma bind_res_assoc: "bind_res (bind_res m f) g = bind_res m (\<lambda>x. bind_res (f x) g)"
  by (cases m) simp_all


lemma reads_value: "reads consumeDoubleQuotedOrNull hs_value"
proof -
  let ?null = "hs_seq (hs_unit (consumeExpected2 (CHR ''N'') (CHR ''U''))) (hs_unit (consumeExpected2 (CHR ''L'') (CHR ''L'')))"
  let ?str = "hs_seq (hs_unit (consumeExpectedByte (CHR 0x22))) consumeDoubleQuoted"
  have null: "reads ?null (\<lambda>(x, y). [CHR ''N'', CHR ''U''] @ [CHR ''L'', CHR ''L''])"
    by (intro reads_hs_seq reads_expected2) simp_all
  have str: "reads ?str (\<lambda>(x, y). [CHR 0x22] @ hs_escape y @ [CHR 0x22])"
    by (intro reads_hs_seq reads_expected1 reads_cdq) simp_all
  have eq: "consumeDoubleQuotedOrNull p = (case hrest p of
      [] \<Rightarrow> Inl FoundEndInsteadOfValue
    | c # _ \<Rightarrow>
       if c = CHR ''N'' then bind_res (?null p) (\<lambda>(_, p). Inr (None, p))
       else if c \<noteq> CHR 0x22 then Inl (UnexpectedByte c (CHR 0x22))
       else bind_res (?str p) (\<lambda>((_, s), p). Inr (Some s, p)))" for p
  proof (cases "hrest p")
    case Nil
    then show ?thesis by (simp add: consumeDoubleQuotedOrNull_def atEnd_def hrest_def)
  next
    case (Cons c t)
    then have "pos p < length (str p)" and "str p ! pos p = c"
      by (auto simp: hrest_def nth_via_drop not_le [symmetric] simp del: not_le)
    moreover have "consumeExpectedByte (CHR 0x22) p = Inr (p\<lparr>pos := Suc (pos p)\<rparr>)" if "c = CHR 0x22"
      using Cons that by (simp add: consumeExpectedByte_def consume_rest)
    ultimately show ?thesis using Cons
      by (simp add: consumeDoubleQuotedOrNull_def atEnd_def hs_seq_def hs_unit_def bind_res_assoc
          case_prod_unfold)
  qed
  show ?thesis
    unfolding reads_def
  proof (intro allI impI conjI)
    fix p v p'
    assume inv: "hinv p" and run: "consumeDoubleQuotedOrNull p = Inr (v, p')"
    consider (n) "v = None" "?null p = Inr (((), ()), p')" | (s) x where "v = Some x" "?str p = Inr (((), x), p')"
      using run by (auto simp: eq res_iff split: list.splits if_splits)
    then have "hrest p = hs_value v @ hrest p' \<and> moved p (hrest p') p'"
    proof cases
      case n
      with readsD1 [OF null inv n(2)] show ?thesis by (simp add: hs_value_def)
    next
      case s
      with readsD1 [OF str inv s(2)] show ?thesis by (simp add: hs_value_def hs_quote_def)
    qed
    then show "hrest p = hs_value v @ hrest p'" and "moved p (hrest p') p'" by simp_all
  next
    fix p v t
    assume inv: "hinv p" and r: "hrest p = hs_value v @ t"
    show "\<exists>p'. consumeDoubleQuotedOrNull p = Inr (v, p') \<and> moved p t p'"
    proof (cases v)
      case None
      with r readsD2 [OF null inv, of "((), ())" t] obtain q where "?null p = Inr (((), ()), q)" "moved p t q"
        by (auto simp: hs_value_def)
      then show ?thesis using None r by (simp add: eq hs_value_def)
    next
      case (Some x)
      with r readsD2 [OF str inv, of "((), x)" t] obtain q where "?str p = Inr (((), x), q)" "moved p t q"
        by (auto simp: hs_value_def hs_quote_def)
      then show ?thesis using Some r by (simp add: eq hs_value_def hs_quote_def)
    qed
  qed
qed

lemma reads_pair: "reads (parse_pair first) (\<lambda>kv. (if first then [] else '', '') @ hs_pair kv)"
proof -
  let ?sep = "hs_unit (\<lambda>p. if \<not> first then consumePairSeparator p else Inr p)"
  let ?seq = "hs_seq ?sep (hs_seq (hs_unit (consumeExpectedByte (CHR 0x22))) (hs_seq consumeDoubleQuoted
       (hs_seq (hs_unit consumeKVSeparator) consumeDoubleQuotedOrNull)))"
  have sep: "reads ?sep (\<lambda>_. if first then [] else '', '')"
    using reads_nothing reads_expected2 [of "CHR '',''" "CHR '' ''"] by (simp add: consumePairSeparator_def)
  have "reads ?seq (\<lambda>(_, _, k, _, v). (if first then [] else '', '') @ [CHR 0x22] @
          (hs_escape k @ [CHR 0x22]) @ ''=>'' @ hs_value v)"
    by (rule reads_hs_seq [OF sep reads_hs_seq [OF reads_expected1 reads_hs_seq [OF reads_cdq reads_hs_seq
          [OF _ reads_value]]], THEN reads_cong])
       (simp_all add: consumeKVSeparator_def reads_expected2 case_prod_unfold)
  then have "reads (\<lambda>p. bind_res (?seq p) (\<lambda>(x, p). Inr ((case x of (_, _, k, _, v) \<Rightarrow> (k, v)), p)))
      (\<lambda>kv. (if first then [] else '', '') @ hs_pair kv)"
    by (rule reads_map [where k = "\<lambda>(k, v). ((), (), k, (), v)"])
       (auto simp: hs_pair_def hs_quote_def)
  moreover have "parse_pair first = (\<lambda>p. bind_res (?seq p) (\<lambda>(x, p). Inr ((case x of (_, _, k, _, v) \<Rightarrow> (k, v)), p)))"
    by (rule ext) (simp add: parse_pair_def hs_seq_def hs_unit_def bind_res_assoc case_prod_unfold)
  ultimately show ?thesis by simp
qed


section \<open>The whole parser\<close>

definition hs_result :: "(string \<times> string option) list \<Rightarrow> (string, string option) gomap \<Rightarrow> (string, string option) gomap" where
  "hs_result kvs m = foldl (\<lambda>m (k, v). AList.update k v m) m kvs"

lemma hs_result_simps [simp]:
  "hs_result [] m = m" "hs_result ((k, v) # kvs) m = hs_result kvs (AList.update k v m)"
  by (simp_all add: hs_result_def)

lemma hs_result_ok: "gomap_ok m \<Longrightarrow> gomap_ok (hs_result kvs m)"
  by (induction kvs arbitrary: m) auto

lemma hs_result_map: "map_of (hs_result kvs m) = map_of m ++ map_of (rev kvs)"
  by (induction kvs arbitrary: m) (auto simp: map_add_def fun_eq_iff split: option.splits)

definition hs_out :: "bool \<Rightarrow> (string \<times> string option) list \<Rightarrow> string" where
  "hs_out first kvs = (if first then hstore_out kvs else hs_rest kvs)"

lemma hs_out_Cons: "hs_out first (kv # kvs) = ((if first then [] else '', '') @ hs_pair kv) @ hs_out False kvs"
  by (simp add: hs_out_def hstore_out_def)

lemma hs_out_Nil [simp]: "hs_out first [] = []"
  by (simp add: hs_out_def hstore_out_def)

lemma atEnd_iff: "hinv p \<Longrightarrow> atEnd p \<longleftrightarrow> hrest p = []"
  by (auto simp: atEnd_def hinv_def hrest_def)

lemma hs_pair_nonempty [simp]: "hs_pair kv \<noteq> []"
  by (simp add: hs_pair_def hs_quote_def)

lemma parse_loop_spec:
  "hinv p \<Longrightarrow> \<exists>r. parse_loop first p m = Some r \<and>
     (\<forall>m'. r = Inr m' \<longleftrightarrow> (\<exists>kvs. hrest p = hs_out first kvs \<and> m' = hs_result kvs m))"
proof (induction "length (hrest p)" arbitrary: p first m rule: less_induct)
  case less
  show ?case
  proof (cases "hrest p = []")
    case True
    have "hs_out first kvs = [] \<longleftrightarrow> kvs = []" for kvs by (cases kvs) (simp_all add: hs_out_Cons)
    moreover have "parse_loop first p m = Some (Inr m)"
      using True less.prems by (subst parse_loop.simps) (simp add: atEnd_iff)
    ultimately show ?thesis by (intro exI [of _ "Inr m"]) (auto simp: True eq_commute [of "[]"])
  next
    case nonempty: False
    show ?thesis
    proof (cases "parse_pair first p")
      case (Inl e)
      have "hrest p \<noteq> hs_out first kvs" for kvs
      proof (cases kvs)
        case (Cons kv kvs')
        show ?thesis
        proof
          assume "hrest p = hs_out first kvs"
          then have "hrest p = ((if first then [] else '', '') @ hs_pair kv) @ hs_out False kvs'"
            by (simp only: Cons hs_out_Cons)
          from readsD2 [OF reads_pair less.prems this] Inl show False by simp
        qed
      qed (simp add: nonempty)
      moreover have "parse_loop first p m = Some (Inl e)"
        using nonempty less.prems Inl by (subst parse_loop.simps) (simp add: atEnd_iff)
      ultimately show ?thesis by simp
    next
      case (Inr a)
      then obtain k v q where q: "parse_pair first p = Inr ((k, v), q)" by (metis prod.collapse)
      from readsD1 [OF reads_pair less.prems q] have
        rest: "hrest p = ((if first then [] else '', '') @ hs_pair (k, v)) @ hrest q" and "hinv q"
        by (auto simp: moved_def)
      moreover have "length (hrest q) < length (hrest p)" unfolding rest by simp
      ultimately obtain r where r: "parse_loop False q (AList.update k v m) = Some r"
        "\<forall>m'. r = Inr m' \<longleftrightarrow> (\<exists>kvs. hrest q = hs_out False kvs \<and> m' = hs_result kvs (AList.update k v m))"
        using less.hyps by blast
      have same: "(\<exists>kvs. hrest p = hs_out first kvs \<and> m' = hs_result kvs m) \<longleftrightarrow>
          (\<exists>kvs. hrest q = hs_out False kvs \<and> m' = hs_result kvs (AList.update k v m))" for m'
      proof
        assume "\<exists>kvs. hrest p = hs_out first kvs \<and> m' = hs_result kvs m"
        then obtain kvs where kvs: "hrest p = hs_out first kvs" "m' = hs_result kvs m" by blast
        with nonempty obtain kv kvs' where c: "kvs = kv # kvs'" by (cases kvs) auto
        with kvs(1) have "hrest p = ((if first then [] else '', '') @ hs_pair kv) @ hs_out False kvs'"
          by (simp add: hs_out_Cons)
        from readsD2 [OF reads_pair less.prems this] q have "kv = (k, v)" "hrest q = hs_out False kvs'"
          by (auto simp: moved_def)
        with kvs(2) c show "\<exists>kvs. hrest q = hs_out False kvs \<and> m' = hs_result kvs (AList.update k v m)"
          by auto
      next
        assume "\<exists>kvs. hrest q = hs_out False kvs \<and> m' = hs_result kvs (AList.update k v m)"
        then obtain kvs where "hrest q = hs_out False kvs" "m' = hs_result kvs (AList.update k v m)" by blast
        then show "\<exists>kvs. hrest p = hs_out first kvs \<and> m' = hs_result kvs m"
          using rest by (intro exI [of _ "(k, v) # kvs"]) (simp add: hs_out_Cons)
      qed
      have "parse_loop first p m = Some r"
        using nonempty less.prems q r(1) by (subst parse_loop.simps) (simp add: atEnd_iff)
      then show ?thesis using r(2) same by auto
    qed
  qed
qed

lemma newHSP_inv [simp]: "hinv (newHSP s)" "hrest (newHSP s) = s"
  by (simp_all add: newHSP_def hinv_def hrest_def index_from_def option.map_ident)


section \<open>Properties\<close>

lemma map_of_rev_distinct: "gomap_ok m \<Longrightarrow> map_of (rev m) = map_of m"
  by (rule map_of_eqI) (auto simp: rev_map [symmetric])

lemma hs_result_distinct:
  "gomap_ok m \<Longrightarrow> json_Marshal_map (hs_result m []) = json_Marshal_map m"
proof (rule json_Marshal_map_cong)
  assume ok: "gomap_ok m"
  show "gomap_ok (hs_result m [])" by (rule hs_result_ok) simp
  have "map_of (hs_result m []) = map_of (rev m)" unfolding hs_result_map by simp
  then show "map_of (hs_result m []) = map_of m" using map_of_rev_distinct [OF ok] by (rule trans)
qed

text \<open>
  C7: the hstore parser, fast path and escapes included, succeeds exactly on the strings that
  hstore prints, and its result is the JSON object of the printed pairs (a later pair of a key
  replaces an earlier one).
\<close>

theorem ParseHstore_exact:
  "ParseHstore s = Some (Inr j) \<longleftrightarrow>
     (\<exists>kvs. s = hstore_out kvs \<and> j = json_Marshal_map (hs_result kvs []))"
proof -
  obtain r where r: "parse_loop True (newHSP s) [] = Some r"
    "\<forall>m'. r = Inr m' \<longleftrightarrow> (\<exists>kvs. s = hs_out True kvs \<and> m' = hs_result kvs [])"
    using parse_loop_spec [of "newHSP s" True "[]"] unfolding newHSP_inv(2) by (blast intro: newHSP_inv(1))
  have "ParseHstore s = Some (Inr j) \<longleftrightarrow> (\<exists>m'. r = Inr m' \<and> j = json_Marshal_map m')"
    using r(1) by (auto simp: ParseHstore_def res_iff)
  then show ?thesis using r(2) by (auto simp: hs_out_def)
qed

text \<open>C18: the loop of the hstore parser returns on every input.\<close>

theorem ParseHstore_returns: "\<exists>r. ParseHstore s = Some r"
  using parse_loop_spec [of "newHSP s" True "[]"] by (auto simp: ParseHstore_def)

text \<open>
  C15: for a map with distinct keys, parsing what hstore prints gives the JSON of that map, with
  quotes and backslashes in keys and values and NULL values included; and a JSON text that
  decodes to the same map is rewritten to the same bytes, so a column default and the values
  of the column have one representation.
\<close>

theorem hstore_roundtrip:
  assumes "gomap_ok m"
    and "json_Unmarshal s = Inr (Some m')" and "gomap_ok m'" and "map_of m' = map_of m"
  shows "ParseHstore (hstore_out m) = Some (Inr (json_Marshal_map m)) \<and>
         CanonicalizeHStoreJSON json_Unmarshal s = Inr (json_Marshal_map m)"
proof -
  obtain r where r: "parse_loop True (newHSP (hstore_out m)) [] = Some r"
    "\<forall>m'. r = Inr m' \<longleftrightarrow> (\<exists>kvs. hstore_out m = hs_out True kvs \<and> m' = hs_result kvs [])"
    using parse_loop_spec [of "newHSP (hstore_out m)" True "[]"] unfolding newHSP_inv(2)
    by (blast intro: newHSP_inv(1))
  have "hstore_out m = hs_out True m" by (simp add: hs_out_def)
  with r(2) have "r = Inr (hs_result m [])" by blast
  with r(1) have "ParseHstore (hstore_out m) = Some (Inr (json_Marshal_map m))"
    by (simp add: ParseHstore_def hs_result_distinct [OF assms(1)])
  moreover have "json_Marshal_map m' = json_Marshal_map m"
    by (rule json_Marshal_map_cong [OF assms(3,1,4)])
  ultimately show ?thesis using assms(2) by (simp add: CanonicalizeHStoreJSON_def)
qed

definition hs_sample :: "(string, string option) gomap" where
  "hs_sample = [(''b'', None), (''a'', Some [CHR 0x22, CHR 0x5C])]"

theorem hstore_roundtrip_witness:
  "ParseHstore (hstore_out hs_sample) = Some (Inr (json_Marshal_map hs_sample)) \<and>
   CanonicalizeHStoreJSON (\<lambda>_. Inr (Some (rev hs_sample))) ''{}'' = Inr (json_Marshal_map hs_sample)"
proof (rule hstore_roundtrip [where m' = "rev hs_sample"])
  show "map_of (rev hs_sample) = map_of hs_sample"
    by (rule map_of_rev_distinct) (simp add: hs_sample_def)
qed (simp_all add: hs_sample_def)

end
