(* ===== verification/SqlLiteral.thy ===== *)
theory SqlLiteral
  imports Prelude
begin

text \<open>
  The SQL literals that \<^verbatim>\<open>flow/connectors/postgres/cdc.go\<close> writes for column defaults: the regular
  expression that admits numbers, and the quoting of text.
\<close>

section \<open>Numbers\<close>

text \<open>
  \<open>pgNumericLiteralRegex\<close> is the regular expression
  \<^verbatim>\<open>^[+-]?(\d+(\.\d*)?|\.\d+)([eE][+-]?\d+)?$\<close>. The alternatives are decided by the next byte,
  so reading digits greedily does not lose a match; \<open>numeric_literal_iff\<close> states the language.
\<close>

definition skip_sign :: "string \<Rightarrow> string" where
  "skip_sign s = (case s of c # t \<Rightarrow> if c = CHR ''+'' \<or> c = CHR ''-'' then t else s | [] \<Rightarrow> [])"

definition digits :: "string \<Rightarrow> string" where
  "digits s = takeWhile is_digit s"

definition after_digits :: "string \<Rightarrow> string" where
  "after_digits s = dropWhile is_digit s"

definition match_exponent :: "string \<Rightarrow> bool" where
  "match_exponent s = (case s of
     [] \<Rightarrow> True
   | c # t \<Rightarrow> (c = CHR ''e'' \<or> c = CHR ''E'') \<and> digits (skip_sign t) \<noteq> [] \<and> after_digits (skip_sign t) = [])"

definition pgNumericLiteralRegex :: "string \<Rightarrow> bool" where
  "pgNumericLiteralRegex value =
     (let s = skip_sign value in
      if digits s \<noteq> [] then
        (case after_digits s of
           c # t \<Rightarrow> if c = CHR ''.'' then match_exponent (after_digits t) else match_exponent (c # t)
         | [] \<Rightarrow> True)
      else
        (case s of
           c # t \<Rightarrow> c = CHR ''.'' \<and> digits t \<noteq> [] \<and> match_exponent (after_digits t)
         | [] \<Rightarrow> False))"

section \<open>Quoting\<close>

definition clickHouseDefaultLiteralReplacer :: "string \<Rightarrow> string" where
  "clickHouseDefaultLiteralReplacer value = concat (map (\<lambda>c.
     if c = CHR 0x5C then [CHR 0x5C, CHR 0x5C] else if c = CHR 0x27 then [CHR 0x27, CHR 0x27] else [c]) value)"

definition quoteDefaultLiteral :: "string \<Rightarrow> string" where
  "quoteDefaultLiteral value = [CHR 0x27] @ clickHouseDefaultLiteralReplacer value @ [CHR 0x27]"

definition normalizePostgresMissingTimestamp :: "string \<Rightarrow> string" where
  "normalizePostgresMissingTimestamp value =
     (if length value > 10 \<and> value ! 10 = CHR ''T'' then take 10 value @ '' '' @ drop 11 value else value)"

section \<open>What a literal is\<close>

text \<open>
  How the destination reads a quoted literal: up to the closing quote, a doubled quote is a
  quote and a doubled backslash a backslash. Other escapes do not occur in what is written
  here and are not read. The result is the value and the text after the literal.
\<close>

fun read_quoted :: "string \<Rightarrow> (string \<times> string) option" where
  "read_quoted [] = None"
| "read_quoted (c # s) =
     (if c = CHR 0x27 then
        (case s of
           d # t \<Rightarrow> if d = CHR 0x27 then map_option (\<lambda>(x, r). (d # x, r)) (read_quoted t) else Some ([], s)
         | [] \<Rightarrow> Some ([], []))
      else if c = CHR 0x5C then
        (case s of
           d # t \<Rightarrow> if d = CHR 0x5C then map_option (\<lambda>(x, r). (d # x, r)) (read_quoted t) else None
         | [] \<Rightarrow> None)
      else map_option (\<lambda>(x, r). (c # x, r)) (read_quoted s))"

definition read_literal :: "string \<Rightarrow> (string \<times> string) option" where
  "read_literal s = (case s of c # t \<Rightarrow> if c = CHR 0x27 then read_quoted t else None | [] \<Rightarrow> None)"

lemma read_quoted_replacer:
  assumes "rest = [] \<or> hd rest \<noteq> CHR 0x27"
  shows "read_quoted (clickHouseDefaultLiteralReplacer v @ CHR 0x27 # rest) = Some (v, rest)"
proof (induction v)
  case Nil
  then show ?case using assms by (cases rest) (simp_all add: clickHouseDefaultLiteralReplacer_def)
next
  case (Cons c v)
  then show ?case by (auto simp: clickHouseDefaultLiteralReplacer_def)
qed

lemma read_literal_quote:
  "rest = [] \<or> hd rest \<noteq> CHR 0x27 \<Longrightarrow> read_literal (quoteDefaultLiteral v @ rest) = Some (v, rest)"
  using read_quoted_replacer [of rest v] by (simp add: read_literal_def quoteDefaultLiteral_def)

section \<open>The numbers that are accepted\<close>

definition all_digits :: "string \<Rightarrow> bool" where
  "all_digits s \<longleftrightarrow> (\<forall>c \<in> set s. is_digit c)"

definition sign_ok :: "string \<Rightarrow> bool" where
  "sign_ok s \<longleftrightarrow> s \<in> {[], ''+'', ''-''}"

definition exp_ok :: "string \<Rightarrow> bool" where
  "exp_ok s \<longleftrightarrow> s = [] \<or> (\<exists>e sg ds. s = e # sg @ ds \<and> e \<in> {CHR ''e'', CHR ''E''} \<and> sign_ok sg \<and> ds \<noteq> [] \<and> all_digits ds)"

definition mantissa_ok :: "string \<Rightarrow> bool" where
  "mantissa_ok s \<longleftrightarrow> (\<exists>a b. (s = a \<and> b = [] \<or> s = a @ ''.'' @ b) \<and> a \<noteq> [] \<and> all_digits a \<and> all_digits b)
     \<or> (\<exists>b. s = ''.'' @ b \<and> b \<noteq> [] \<and> all_digits b)"

lemma digit_not_punct [simp]:
  "\<not> is_digit (CHR ''+'')" "\<not> is_digit (CHR ''-'')" "\<not> is_digit (CHR ''.'')"
  "\<not> is_digit (CHR ''e'')" "\<not> is_digit (CHR ''E'')" "\<not> is_digit (CHR 0x27)"
  by (simp_all add: is_digit_def)

lemma digits_split: "s = digits s @ after_digits s"
  by (simp add: digits_def after_digits_def)

lemma digits_all: "all_digits (digits s)"
  by (auto simp: all_digits_def digits_def dest: set_takeWhileD)

lemma digits_append:
  assumes "all_digits a" and "t = [] \<or> \<not> is_digit (hd t)"
  shows "digits (a @ t) = a" and "after_digits (a @ t) = t"
  using assms by (cases t; auto simp: digits_def after_digits_def all_digits_def takeWhile_append dropWhile_append)+

lemma after_digits_hd: "after_digits s = c # t \<Longrightarrow> \<not> is_digit c"
  by (metis after_digits_def dropWhile_eq_Cons_conv)


lemma skip_sign_split: "\<exists>sg. sign_ok sg \<and> s = sg @ skip_sign s"
proof (cases s)
  case (Cons c t)
  then show ?thesis
    by (cases "c = CHR ''+'' \<or> c = CHR ''-''") (auto simp: skip_sign_def sign_ok_def)
qed (simp add: skip_sign_def sign_ok_def)

lemma skip_sign_append:
  assumes "sign_ok sg" and "t \<noteq> []" and "hd t \<noteq> CHR ''+''" and "hd t \<noteq> CHR ''-''"
  shows "skip_sign (sg @ t) = t"
  using assms by (cases t) (auto simp: skip_sign_def sign_ok_def)

lemma all_digits_hd: "all_digits s \<Longrightarrow> s \<noteq> [] \<Longrightarrow> is_digit (hd s)"
  by (simp add: all_digits_def)

lemma skip_sign_digits:
  "sign_ok sg \<Longrightarrow> all_digits ds \<Longrightarrow> ds \<noteq> [] \<Longrightarrow> skip_sign (sg @ ds @ t) = ds @ t"
  using all_digits_hd [of ds] by (intro skip_sign_append) auto

lemma match_exponent_iff: "match_exponent s \<longleftrightarrow> exp_ok s"
proof
  assume m: "match_exponent s"
  show "exp_ok s"
  proof (cases s)
    case (Cons c t)
    with m have c: "c \<in> {CHR ''e'', CHR ''E''}" and d: "digits (skip_sign t) \<noteq> []" "after_digits (skip_sign t) = []"
      by (auto simp: match_exponent_def)
    obtain sg where sg: "sign_ok sg" "t = sg @ skip_sign t" using skip_sign_split by blast
    have "skip_sign t = digits (skip_sign t)" using digits_split [of "skip_sign t"] d(2) by simp
    with sg(2) Cons have "s = c # sg @ digits (skip_sign t)" by simp
    then have "\<exists>e sg ds. s = e # sg @ ds \<and> e \<in> {CHR ''e'', CHR ''E''} \<and> sign_ok sg \<and> ds \<noteq> [] \<and> all_digits ds"
      using c sg(1) d(1) digits_all [of "skip_sign t"] by (intro exI conjI)
    then show ?thesis unfolding exp_ok_def by (rule disjI2)
  qed (simp add: exp_ok_def)
next
  assume "exp_ok s"
  then consider "s = []" | e sg ds where "s = e # sg @ ds" "e \<in> {CHR ''e'', CHR ''E''}" "sign_ok sg" "ds \<noteq> []" "all_digits ds"
    by (auto simp: exp_ok_def)
  then show "match_exponent s"
  proof cases
    case 2
    then have "skip_sign (sg @ ds) = ds" using skip_sign_digits [of sg ds "[]"] by simp
    moreover have "digits ds = ds" "after_digits ds = []" using digits_append [OF 2(5), of "[]"] by simp_all
    ultimately show ?thesis using 2 by (auto simp: match_exponent_def)
  qed (simp add: match_exponent_def)
qed

lemma exp_ok_hd: "exp_ok s \<Longrightarrow> s = [] \<or> \<not> is_digit (hd s) \<and> hd s \<noteq> CHR ''.''"
  by (auto simp: exp_ok_def)

definition numeric_literal :: "string \<Rightarrow> bool" where
  "numeric_literal v \<longleftrightarrow> (\<exists>sg mant ex. v = sg @ mant @ ex \<and> sign_ok sg \<and> mantissa_ok mant \<and> exp_ok ex)"

lemma regex_literal: "pgNumericLiteralRegex v \<Longrightarrow> numeric_literal v"
proof -
  assume m: "pgNumericLiteralRegex v"
  let ?s = "skip_sign v"
  obtain sg where sg: "sign_ok sg" "v = sg @ ?s" using skip_sign_split by blast
  have "\<exists>mant ex. ?s = mant @ ex \<and> mantissa_ok mant \<and> exp_ok ex"
  proof (cases "digits ?s = []")
    case True
    with m obtain t where t: "?s = ''.'' @ t" "digits t \<noteq> []" "exp_ok (after_digits t)"
      by (auto simp: pgNumericLiteralRegex_def Let_def match_exponent_iff split: list.splits)
    have "mantissa_ok (''.'' @ digits t)" using t(2) digits_all by (auto simp: mantissa_ok_def)
    moreover have "?s = (''.'' @ digits t) @ after_digits t" using t(1) digits_split [of t] by simp
    ultimately show ?thesis using t(3) by blast
  next
    case False
    have split: "?s = digits ?s @ after_digits ?s" by (rule digits_split)
    have man: "mantissa_ok (digits ?s)" "mantissa_ok (digits ?s @ ''.'' @ digits t)" for t
      unfolding mantissa_ok_def
      by (rule disjI1, rule exI [of _ "digits ?s"], rule exI [of _ "[]"], simp add: False digits_all all_digits_def [of "[]"],
          rule disjI1, rule exI [of _ "digits ?s"], rule exI [of _ "digits t"], simp add: False digits_all)
    consider "after_digits ?s = []" | t where "after_digits ?s = CHR ''.'' # t" "exp_ok (after_digits t)"
      | c t where "after_digits ?s = c # t" "exp_ok (c # t)"
      using m False by (auto simp: pgNumericLiteralRegex_def Let_def match_exponent_iff split: list.splits if_splits)
    then show ?thesis
    proof cases
      case 1
      then show ?thesis using split man(1) by (intro exI [of _ "digits ?s"] exI [of _ "[]"]) (simp add: exp_ok_def)
    next
      case 2
      then have "?s = (digits ?s @ ''.'' @ digits t) @ after_digits t" using split digits_split [of t] by simp
      then show ?thesis using man(2) 2(2) by blast
    next
      case 3
      then show ?thesis using split man(1) by metis
    qed
  qed
  with sg show ?thesis unfolding numeric_literal_def by metis
qed

lemma literal_regex: "numeric_literal v \<Longrightarrow> pgNumericLiteralRegex v"
proof -
  assume "numeric_literal v"
  then obtain sg mant ex where v: "v = sg @ mant @ ex" "sign_ok sg" "mantissa_ok mant" "exp_ok ex"
    by (auto simp: numeric_literal_def)
  note ex = exp_ok_hd [OF v(4)]
  from v(3) consider
      (int) "mant \<noteq> []" "all_digits mant"
    | (frac) a b where "mant = a @ ''.'' @ b" "a \<noteq> []" "all_digits a" "all_digits b"
    | (dot) b where "mant = ''.'' @ b" "b \<noteq> []" "all_digits b"
    by (auto simp: mantissa_ok_def)
  then show ?thesis
  proof cases
    case int
    then have "skip_sign v = mant @ ex" using v skip_sign_digits by simp
    moreover have "digits (mant @ ex) = mant" "after_digits (mant @ ex) = ex" using digits_append [OF int(2)] ex by auto
    ultimately show ?thesis using int(1) v(4) ex
      by (cases ex) (auto simp: pgNumericLiteralRegex_def match_exponent_iff)
  next
    case frac
    then have "skip_sign v = a @ ''.'' @ b @ ex" using v skip_sign_digits by simp
    moreover have "digits (a @ ''.'' @ b @ ex) = a" "after_digits (a @ ''.'' @ b @ ex) = ''.'' @ b @ ex"
      using digits_append [OF frac(3), of "''.'' @ b @ ex"] by auto
    moreover have "after_digits (b @ ex) = ex" using digits_append [OF frac(4)] ex by auto
    ultimately show ?thesis using frac(2) v(4) by (simp add: pgNumericLiteralRegex_def match_exponent_iff)
  next
    case dot
    then have "skip_sign v = ''.'' @ b @ ex" using v by (simp add: skip_sign_append)
    moreover have "digits (''.'' @ b @ ex) = []" by (simp add: digits_def)
    moreover have "after_digits (b @ ex) = ex" "digits (b @ ex) = b" using digits_append [OF dot(3)] ex by auto
    ultimately show ?thesis using dot(2) v(4) by (simp add: pgNumericLiteralRegex_def match_exponent_iff)
  qed
qed


section \<open>Properties\<close>

text \<open>
  C29: the regular expression admits exactly the texts of a sign, digits with an optional
  fraction (or a fraction alone) and an optional exponent.
\<close>

theorem numeric_literal_iff: "pgNumericLiteralRegex v \<longleftrightarrow> numeric_literal v"
  using regex_literal literal_regex by blast

text \<open>
  C30: a quoted default is read back as one literal with the original value, whatever quotes and
  backslashes the value has and whatever follows (unless that is a quote).
\<close>

theorem quoteDefaultLiteral_roundtrip:
  assumes "rest = [] \<or> hd rest \<noteq> CHR 0x27"
  shows "read_literal (quoteDefaultLiteral v @ rest) = Some (v, rest)"
  by (rule read_literal_quote [OF assms])

theorem quoteDefaultLiteral_roundtrip_witness:
  "read_literal (quoteDefaultLiteral [CHR 0x27, CHR 0x5C, CHR ''x''] @ '', y'') =
     Some ([CHR 0x27, CHR 0x5C, CHR ''x''], '', y'')"
  by (rule quoteDefaultLiteral_roundtrip) simp

end
