(* ===== verification/PgDefaults.thy ===== *)
theory PgDefaults
  imports PgTypes Hstore SqlLiteral
begin

text \<open>
  \<^verbatim>\<open>defaultExprFromPostgresMissingValue\<close> of \<^verbatim>\<open>flow/connectors/postgres/cdc.go\<close>: the value PostgreSQL
  keeps for rows that predate an added column, rendered as a SQL literal that is spliced into
  the DDL of the destination.
\<close>

section \<open>The default expression\<close>

text \<open>\<open>None\<close> is a declined value: the column is added without a default.\<close>

definition defaultExprFromPostgresMissingValue ::
    "(string \<Rightarrow> (string, (string, string option) gomap option) res) \<Rightarrow> string \<Rightarrow> QValueKind \<Rightarrow> string option" where
  "defaultExprFromPostgresMissingValue json_Unmarshal value qkind =
     (if qkind = QValueKindBoolean then
        (if value \<noteq> ''true'' \<and> value \<noteq> ''false'' then None else Some value)
      else if qkind \<in> {QValueKindInt8, QValueKindInt16, QValueKindInt32, QValueKindInt64,
          QValueKindInt256, QValueKindUInt8, QValueKindUInt16, QValueKindUInt32,
          QValueKindUInt64, QValueKindUInt256, QValueKindFloat32, QValueKindFloat64,
          QValueKindNumeric} then
        (if \<not> pgNumericLiteralRegex value then None else Some value)
      else if qkind = QValueKindTimestampTZ then
        (let value = normalizePostgresMissingTimestamp value;
             (value, ok) = CutSuffix value ''+00:00'';
             (value, ok) = (if \<not> ok then CutSuffix value ''+00'' else (value, ok)) in
         if \<not> ok then None else Some (quoteDefaultLiteral value))
      else if qkind = QValueKindTimestamp then
        Some (quoteDefaultLiteral (normalizePostgresMissingTimestamp value))
      else if qkind = QValueKindHStore then
        (case CanonicalizeHStoreJSON json_Unmarshal value of
           Inl _ \<Rightarrow> None
         | Inr value \<Rightarrow> Some (quoteDefaultLiteral value))
      else if qkind \<in> {QValueKindString, QValueKindEnum, QValueKindQChar, QValueKindUUID,
          QValueKindJSON, QValueKindJSONB, QValueKindINET,
          QValueKindCIDR, QValueKindMacaddr, QValueKindDate} then
        Some (quoteDefaultLiteral value)
      else None)"



section \<open>Properties\<close>

text \<open>The texts that a default may be without quotes.\<close>

definition bare_literal :: "string \<Rightarrow> bool" where
  "bare_literal v \<longleftrightarrow> v = ''true'' \<or> v = ''false'' \<or> numeric_literal v"

lemma if_SomeE:
  "(if b then x else y) = Some l \<Longrightarrow> (b \<Longrightarrow> x = Some l \<Longrightarrow> Q) \<Longrightarrow> (\<not> b \<Longrightarrow> y = Some l \<Longrightarrow> Q) \<Longrightarrow> Q"
  by (cases b) simp_all

lemma default_cases:
  assumes "defaultExprFromPostgresMissingValue u v k = Some lit"
  shows "lit = v \<and> (v = ''true'' \<or> v = ''false'' \<or> pgNumericLiteralRegex v) \<or> (\<exists>x. lit = quoteDefaultLiteral x)"
proof -
  let ?P = "lit = v \<and> (v = ''true'' \<or> v = ''false'' \<or> pgNumericLiteralRegex v) \<or> (\<exists>x. lit = quoteDefaultLiteral x)"
  have none: "None = Some lit \<Longrightarrow> ?P" by simp
  have quoted: "Some (quoteDefaultLiteral x) = Some lit \<Longrightarrow> ?P" for x by auto
  have hstore: "(case c of Inl _ \<Rightarrow> None | Inr x \<Rightarrow> Some (quoteDefaultLiteral x)) = Some lit \<Longrightarrow> ?P"
    for c :: "(string, string) res" by (cases c) auto
  have bool: "\<not> (v \<noteq> ''true'' \<and> v \<noteq> ''false'') \<Longrightarrow> Some v = Some lit \<Longrightarrow> ?P" by blast
  have num: "\<not> \<not> pgNumericLiteralRegex v \<Longrightarrow> Some v = Some lit \<Longrightarrow> ?P" by blast
  from assms show ?thesis
    unfolding defaultExprFromPostgresMissingValue_def Let_def case_prod_unfold
    by (elim if_SomeE) (erule none | erule quoted | erule hstore | erule (1) bool | erule (1) num)+
qed

text \<open>
  C27: whatever value the source stores, the default spliced into the DDL is either a boolean or
  a number, unchanged, or one quoted literal: the text after it is never taken into it and no
  text of the value is taken out of it.
\<close>

theorem default_literal_safe:
  assumes "defaultExprFromPostgresMissingValue u v k = Some lit" and "rest = [] \<or> hd rest \<noteq> CHR 0x27"
  shows "lit = v \<and> bare_literal v \<or> (\<exists>x. lit = quoteDefaultLiteral x \<and> read_literal (lit @ rest) = Some (x, rest))"
  using default_cases [OF assms(1)] read_literal_quote [OF assms(2)] regex_literal [of v]
  by (auto simp: bare_literal_def)

theorem default_literal_safe_witness:
  "defaultExprFromPostgresMissingValue (\<lambda>_. Inl []) [CHR 0x27, CHR '';''] QValueKindString = Some (quoteDefaultLiteral [CHR 0x27, CHR '';'']) \<and>
   read_literal (quoteDefaultLiteral [CHR 0x27, CHR '';''] @ '','') = Some ([CHR 0x27, CHR '';''], '','')"
proof -
  have d: "defaultExprFromPostgresMissingValue (\<lambda>_. Inl []) [CHR 0x27, CHR '';''] QValueKindString
      = Some (quoteDefaultLiteral [CHR 0x27, CHR '';''])"
    by (simp add: defaultExprFromPostgresMissingValue_def)
  have ne: "quoteDefaultLiteral [CHR 0x27, CHR '';''] \<noteq> [CHR 0x27, CHR '';'']"
    by (simp add: quoteDefaultLiteral_def clickHouseDefaultLiteralReplacer_def)
  have inj: "quoteDefaultLiteral [CHR 0x27, CHR '';''] = quoteDefaultLiteral x \<Longrightarrow> x = [CHR 0x27, CHR '';'']" for x
    using read_literal_quote [of "[]" x] read_literal_quote [of "[]" "[CHR 0x27, CHR '';'']"] by simp
  from default_literal_safe [OF d, of "'',''"] ne inj d show ?thesis by auto
qed


end
