(* ===== verification/Identifiers.thy ===== *)
theory Identifiers
  imports Prelude
begin

text \<open>
  Names: \<^verbatim>\<open>flow/pkg/common/identifiers.go\<close> (qualified tables and the quoting of identifiers) and
  \<^verbatim>\<open>flow/shared/string.go\<close>, \<^verbatim>\<open>flow/shared/array.go\<close> (names of replication objects, list difference).
\<close>

record QualifiedTable =
  Namespace :: string
  Table :: string

definition ParseTableIdentifier :: "string \<Rightarrow> (string, QualifiedTable) res" where
  "ParseTableIdentifier tableIdentifier =
     (let (ns, table, hasDot) = CutByte tableIdentifier (CHR ''.'') in
      if \<not> hasDot \<or> ns = [] \<or> table = [] \<or> CHR ''.'' \<in> set table
      then Inl (''invalid table name: '' @ tableIdentifier)
      else Inr \<lparr>Namespace = ns, Table = table\<rparr>)"

text \<open>The name up to its first zero byte.\<close>

definition cut_zero :: "string \<Rightarrow> string" where
  "cut_zero name = (case IndexByte name (CHR 0x00) of None \<Rightarrow> name | Some end \<Rightarrow> take end name)"

definition QuoteIdentifier :: "string \<Rightarrow> string" where
  "QuoteIdentifier name = [CHR 0x22] @ ReplaceByte (CHR 0x22) [CHR 0x22, CHR 0x22] (cut_zero name) @ [CHR 0x22]"

definition QuoteMySQLIdentifier :: "string \<Rightarrow> string" where
  "QuoteMySQLIdentifier name = [CHR 0x60] @ ReplaceByte (CHR 0x60) [CHR 0x60, CHR 0x60] (cut_zero name) @ [CHR 0x60]"

definition QualifiedTable_String :: "QualifiedTable \<Rightarrow> string" where
  "QualifiedTable_String t = QuoteIdentifier (Namespace t) @ ''.'' @ QuoteIdentifier (Table t)"

definition QualifiedTable_MySQL :: "QualifiedTable \<Rightarrow> string" where
  "QualifiedTable_MySQL t = QuoteMySQLIdentifier (Namespace t) @ ''.'' @ QuoteMySQLIdentifier (Table t)"

section \<open>Names of replication objects\<close>

definition char_between :: "char \<Rightarrow> char \<Rightarrow> char \<Rightarrow> bool" where
  "char_between lo hi c \<longleftrightarrow> of_char lo \<le> (of_char c :: nat) \<and> (of_char c :: nat) \<le> of_char hi"

definition legal_char :: "char \<Rightarrow> bool" where
  "legal_char c \<longleftrightarrow> char_between (CHR ''a'') (CHR ''z'') c \<or> char_between (CHR ''A'') (CHR ''Z'') c \<or>
     char_between (CHR ''0'') (CHR ''9'') c \<or> c = CHR ''_''"

text \<open>
  Every maximal run of bytes that are not letters, digits or underscores becomes one
  underscore; a byte of a multi-byte character is not one of them either.
\<close>

function ReplaceIllegalCharactersWithUnderscores :: "string \<Rightarrow> string" where
  "ReplaceIllegalCharactersWithUnderscores [] = []"
| "ReplaceIllegalCharactersWithUnderscores (c # s) =
     (if legal_char c then c # ReplaceIllegalCharactersWithUnderscores s
      else CHR ''_'' # ReplaceIllegalCharactersWithUnderscores (dropWhile (\<lambda>c. \<not> legal_char c) s))"
  by pat_completeness auto
termination
  by (relation "measure length") (auto simp: le_imp_less_Suc length_dropWhile_le)

definition IsValidReplicationName :: "string \<Rightarrow> bool" where
  "IsValidReplicationName s = (case s of
     [] \<Rightarrow> False
   | c # t \<Rightarrow> (char_between (CHR ''a'') (CHR ''z'') c \<or> c = CHR ''_'') \<and>
       (\<forall>d \<in> set t. char_between (CHR ''a'') (CHR ''z'') d \<or> char_between (CHR ''0'') (CHR ''9'') d \<or> d = CHR ''_''))"

definition ArrayMinus :: "'a list \<Rightarrow> 'a list \<Rightarrow> 'a list" where
  "ArrayMinus first second = filter (\<lambda>e. e \<notin> set second) first"

section \<open>Reading a quoted name\<close>

text \<open>
  How SQL reads an identifier delimited by \<open>q\<close>: up to the closing delimiter, a doubled one
  stands for itself. The result is the name and the text after it.
\<close>

fun read_doubled :: "char \<Rightarrow> string \<Rightarrow> (string \<times> string) option" where
  "read_doubled q [] = None"
| "read_doubled q (c # s) =
     (if c = q then
        (case s of
           d # t \<Rightarrow> if d = q then map_option (\<lambda>(x, r). (q # x, r)) (read_doubled q t) else Some ([], s)
         | [] \<Rightarrow> Some ([], []))
      else map_option (\<lambda>(x, r). (c # x, r)) (read_doubled q s))"

definition read_identifier :: "char \<Rightarrow> string \<Rightarrow> (string \<times> string) option" where
  "read_identifier q s = (case s of c # t \<Rightarrow> if c = q then read_doubled q t else None | [] \<Rightarrow> None)"

lemma read_doubled_quoted:
  assumes "rest = [] \<or> hd rest \<noteq> q"
  shows "read_doubled q (ReplaceByte q [q, q] v @ q # rest) = Some (v, rest)"
proof (induction v)
  case Nil
  then show ?case using assms by (cases rest) simp_all
qed simp

lemma read_identifier_quoted:
  "rest = [] \<or> hd rest \<noteq> q \<Longrightarrow> read_identifier q (q # ReplaceByte q [q, q] v @ q # rest) = Some (v, rest)"
  by (simp add: read_identifier_def read_doubled_quoted)

lemma cut_zero_id: "CHR 0x00 \<notin> set name \<Longrightarrow> cut_zero name = name"
  by (simp add: cut_zero_def IndexByte_None_iff [THEN iffD2])

lemma cut_zero_clean: "CHR 0x00 \<notin> set (cut_zero name)"
  using IndexByte_SomeD [of name "CHR 0x00"] IndexByte_None_iff [of name "CHR 0x00"]
  by (cases "IndexByte name (CHR 0x00)") (auto simp: cut_zero_def)

lemma CutByte_iff:
  "CutByte s c = (a, b, True) \<longleftrightarrow> s = a @ c # b \<and> c \<notin> set a"
proof
  assume "CutByte s c = (a, b, True)"
  then obtain i where i: "IndexByte s c = Some i" "a = take i s" "b = drop (Suc i) s"
    by (auto simp: CutByte_def split: option.splits)
  have "i < length s" "s ! i = c" "c \<notin> set (take i s)" using IndexByte_SomeD [OF i(1)] by auto
  then show "s = a @ c # b \<and> c \<notin> set a" using id_take_nth_drop [of i s] unfolding i(2,3) by simp
next
  assume s: "s = a @ c # b \<and> c \<notin> set a"
  have "IndexByte (a @ c # b) c = Some (length a)" if "c \<notin> set a" for a
    using that by (induction a) auto
  with s show "CutByte s c = (a, b, True)" by (simp add: CutByte_def)
qed

lemma ParseTableIdentifier_iff:
  "ParseTableIdentifier s = Inr t \<longleftrightarrow> s = Namespace t @ ''.'' @ Table t \<and>
     Namespace t \<noteq> [] \<and> Table t \<noteq> [] \<and> CHR ''.'' \<notin> set (Namespace t) \<and> CHR ''.'' \<notin> set (Table t)"
proof -
  obtain a b d where c: "CutByte s (CHR ''.'') = (a, b, d)" by (metis prod_cases3)
  show ?thesis
  proof (cases d)
    case True
    have "s = Namespace t @ ''.'' @ Table t \<and> CHR ''.'' \<notin> set (Namespace t) \<longleftrightarrow> Namespace t = a \<and> Table t = b"
      using CutByte_iff [of s "CHR ''.''" "Namespace t" "Table t"] c True by auto
    moreover have "ParseTableIdentifier s = Inr t \<longleftrightarrow>
        Namespace t = a \<and> Table t = b \<and> a \<noteq> [] \<and> b \<noteq> [] \<and> CHR ''.'' \<notin> set b"
      using c True by (cases t) (auto simp: ParseTableIdentifier_def)
    ultimately show ?thesis by auto
  next
    case False
    then have "\<not> (s = Namespace t @ ''.'' @ Table t \<and> CHR ''.'' \<notin> set (Namespace t))"
      using CutByte_iff [of s "CHR ''.''" "Namespace t" "Table t"] c by simp
    then show ?thesis using c False by (auto simp: ParseTableIdentifier_def)
  qed
qed

lemma legal_underscore [simp]: "legal_char (CHR ''_'')"
  by (simp add: legal_char_def)

lemma replaced_legal: "\<forall>c \<in> set (ReplaceIllegalCharactersWithUnderscores s). legal_char c"
proof (induction s rule: ReplaceIllegalCharactersWithUnderscores.induct)
  case (2 c s)
  show ?case
  proof (cases "legal_char c")
    case True
    then have eq: "ReplaceIllegalCharactersWithUnderscores (c # s) = c # ReplaceIllegalCharactersWithUnderscores s"
      by simp
    show ?thesis unfolding eq list.set using "2.IH"(1) [OF True] True by blast
  next
    case False
    then have eq: "ReplaceIllegalCharactersWithUnderscores (c # s) =
        CHR ''_'' # ReplaceIllegalCharactersWithUnderscores (dropWhile (\<lambda>c. \<not> legal_char c) s)"
      by simp
    show ?thesis unfolding eq list.set using "2.IH"(2) [OF False] legal_underscore by blast
  qed
qed simp

lemma replace_legal_id: "\<forall>c \<in> set s. legal_char c \<Longrightarrow> ReplaceIllegalCharactersWithUnderscores s = s"
  by (induction s) auto

section \<open>Properties\<close>

text \<open>
  C31: a table identifier is accepted exactly when it is a non-empty namespace and a non-empty
  table name around a single dot, and these are what is returned.
\<close>

theorem ParseTableIdentifier_exact:
  "ParseTableIdentifier s = Inr t \<longleftrightarrow> s = Namespace t @ ''.'' @ Table t \<and>
     Namespace t \<noteq> [] \<and> Table t \<noteq> [] \<and> CHR ''.'' \<notin> set (Namespace t) \<and> CHR ''.'' \<notin> set (Table t)"
  by (rule ParseTableIdentifier_iff)


end
