(* ===== verification/PgProcess.thy ===== *)
theory PgProcess
  imports CdcStream PgDefaults Identifiers
begin

text \<open>
  \<^verbatim>\<open>flow/connectors/postgres/cdc.go\<close>: turning the messages of logical replication into records.
  The decoder of the wire format (pglogrepl) and the answers of the source database are the
  fields of \<open>pg_env\<close>; everything the code does with them is modelled. The state is the part of
  \<^verbatim>\<open>PostgresCDCSource\<close> that messages read and change.
\<close>

section \<open>Messages\<close>

type_synonym lsn = "64 word"
type_synonym relid = "32 word"

record RelationMessageColumn =
  rcName :: string
  rcDataType :: oid
  rcTypeModifier :: int

record RelationMessage =
  rmRelationID :: relid
  rmNamespace :: string
  rmRelationName :: string
  rmColumns :: "RelationMessageColumn list"

record TupleDataColumn =
  tcDataType :: char
  tcData :: bytes

type_synonym TupleData = "TupleDataColumn list"

record BeginMessage =
  bmFinalLSN :: lsn
  bmCommitTime :: int
  bmXid :: "32 word"

datatype logical_msg =
    BeginMsg BeginMessage
  | InsertMsg relid "TupleData option"
  | UpdateMsg relid char "TupleData option" "TupleData option"
  | DeleteMsg relid "TupleData option"
  | CommitMsg lsn lsn int
  | RelationMsg RelationMessage
  | LogicalDecodingMsg bool lsn string string
  | OtherMsg char

section \<open>Errors\<close>

datatype tuple_error =
    TooManyColumns nat nat
  | ColumnError string
  | TuplePanic go_panic

datatype pg_error =
    ParseError string
  | CustomTypeError string
  | InheritsError string
  | UnknownRelation relid string
  | BadTableIdentifier string
  | TupleError string tuple_error
  | NoTableNameMapping string
  | NoTableSchema string
  | TypeNameError string
  | TypeSchemaError string
  | AddedColumnError string
  | AuditError string

section \<open>The environment and the source\<close>

text \<open>
  \<open>inherits_query r id\<close> is the parent of a relation in \<^verbatim>\<open>pg_inherits\<close>, among partitioned tables
  and, where \<open>r\<close> holds, among ordinary ones.
\<close>

record pg_env =
  parse_wal :: "bytes \<Rightarrow> (string, logical_msg) res"
  custom_type_rows :: "(string, (oid \<times> CustomDataType) list) res"
  inherits_query :: "bool \<Rightarrow> relid \<Rightarrow> (string, relid option) res"
  type_schema_rows :: "oid list \<Rightarrow> (string, (oid \<times> string) list) res"
  added_column_rows :: "relid \<Rightarrow> string list \<Rightarrow> (string, (string \<times> bool \<times> bool \<times> string option) list) res"
  audit_schema_delta :: "TableSchemaDelta \<Rightarrow> string option"
  type_for_oid :: "oid \<rightharpoonup> string"
  json_unmarshal :: "string \<Rightarrow> (string, (string, string option) gomap option) res"

record PostgresCDCSource =
  srcTableIDNameMapping :: "relid \<rightharpoonup> string"
  schemaNameForRelID :: "(relid \<rightharpoonup> string) option"
  tableNameMapping :: "string \<rightharpoonup> NameAndExclude"
  tableNameSchemaMapping :: "string \<rightharpoonup> TableSchema"
  relationMessageMapping :: "relid \<rightharpoonup> RelationMessage"
  commitLock :: "BeginMessage option"
  childToParentRelIDMapping :: "relid \<rightharpoonup> relid"
  idToRelKindMap :: "relid \<rightharpoonup> char"
  publishViaPartitionRoot :: bool
  hushWarnUnhandledMessageType :: "char set"
  hushWarnUnknownTableDetected :: "relid set"
  handleInheritanceForNonPartitionedTables :: bool
  originMetadataAsDestinationColumn :: bool
  internalVersion :: "32 word"
  warnedTypeChanges :: "string set"
  customTypeMapping :: "(oid \<rightharpoonup> CustomDataType) option"
  hushWarnOID :: "oid set"

definition GetCustomDataTypes :: "pg_env \<Rightarrow> (string, oid \<rightharpoonup> CustomDataType) res" where
  "GetCustomDataTypes env = bind_res (custom_type_rows env) (\<lambda>rows.
     Inr (foldl (\<lambda>m (typeID, cdt). m(typeID \<mapsto> cdt)) Map.empty rows))"

definition fetchCustomTypeMapping :: "pg_env \<Rightarrow> PostgresCDCSource \<Rightarrow> (pg_error, (oid \<rightharpoonup> CustomDataType) \<times> PostgresCDCSource) res" where
  "fetchCustomTypeMapping env p = (case customTypeMapping p of
     Some m \<Rightarrow> Inr (m, p)
   | None \<Rightarrow> (case GetCustomDataTypes env of
       Inl e \<Rightarrow> Inl (CustomTypeError e)
     | Inr m \<Rightarrow> Inr (m, p\<lparr>customTypeMapping := Some m\<rparr>)))"

definition getSourceSchemaForDestinationColumn ::
    "relid \<Rightarrow> string \<Rightarrow> PostgresCDCSource \<Rightarrow> (pg_error, string \<times> PostgresCDCSource) res" where
  "getSourceSchemaForDestinationColumn relID tableName p = (case schemaNameForRelID p of
     None \<Rightarrow> Inr ([], p)
   | Some m \<Rightarrow> (case m relID of
       Some schema \<Rightarrow> Inr (schema, p)
     | None \<Rightarrow> (case ParseTableIdentifier tableName of
         Inl e \<Rightarrow> Inl (BadTableIdentifier e)
       | Inr schemaTable \<Rightarrow>
           Inr (Namespace schemaTable, p\<lparr>schemaNameForRelID := Some (m(relID \<mapsto> Namespace schemaTable))\<rparr>))))"

section \<open>Inheritance\<close>

text \<open>\<open>rows\<close> is the answer of the query on \<^verbatim>\<open>pg_inherits\<close>: parent, child, kind of the parent.\<close>

definition getChildToParentRelIDMap ::
    "(string, (relid \<times> relid \<times> char) list) res \<Rightarrow> (string, (relid \<rightharpoonup> relid) \<times> (relid \<rightharpoonup> char)) res" where
  "getChildToParentRelIDMap rows = bind_res rows (\<lambda>rs.
     Inr (foldl (\<lambda>(cm, km) (parent, child, relkind). (cm(child \<mapsto> parent), km(parent \<mapsto> relkind)))
            (Map.empty, Map.empty) rs))"

definition getParentRelIDIfPartitioned :: "relid \<Rightarrow> PostgresCDCSource \<Rightarrow> relid \<times> PostgresCDCSource" where
  "getParentRelIDIfPartitioned relID p = (case childToParentRelIDMapping p relID of
     Some parentRelID \<Rightarrow>
       (parentRelID, p\<lparr>hushWarnUnknownTableDetected := insert relID (hushWarnUnknownTableDetected p)\<rparr>)
   | None \<Rightarrow> (relID, p))"

definition rel_kind :: "PostgresCDCSource \<Rightarrow> relid \<Rightarrow> char" where
  "rel_kind p relID = (case idToRelKindMap p relID of None \<Rightarrow> CHR 0x00 | Some k \<Rightarrow> k)"

definition checkIfUnknownTableInherits ::
    "pg_env \<Rightarrow> relid \<Rightarrow> PostgresCDCSource \<Rightarrow> (pg_error, relid \<times> char \<times> PostgresCDCSource) res" where
  "checkIfUnknownTableInherits env relID0 p0 =
     (let (relID, p) = getParentRelIDIfPartitioned relID0 p0 in
      case srcTableIDNameMapping p relID of
        Some _ \<Rightarrow> Inr (relID, rel_kind p relID, p)
      | None \<Rightarrow>
         (case inherits_query env (handleInheritanceForNonPartitionedTables p) relID of
            Inl e \<Rightarrow> Inl (InheritsError e)
          | Inr None \<Rightarrow> Inr (relID, CHR 0x00, p)
          | Inr (Some parentRelID) \<Rightarrow>
             (let p = p\<lparr>childToParentRelIDMapping := (childToParentRelIDMapping p)(relID \<mapsto> parentRelID),
                        hushWarnUnknownTableDetected := insert relID (hushWarnUnknownTableDetected p)\<rparr> in
              Inr (parentRelID, rel_kind p parentRelID, p))))"

section \<open>Tuples\<close>

text \<open>
  The interface \<^verbatim>\<open>replProcessor\<close>, as the functions an implementation gives; \<open>pgProcessor\<close> is the
  one for the PostgreSQL type system.
\<close>

record 'i replProcessor =
  NewItems :: "nat \<Rightarrow> 'i"
  Process :: "'i \<Rightarrow> TupleDataColumn \<Rightarrow> RelationMessageColumn \<Rightarrow> (oid \<rightharpoonup> CustomDataType) \<Rightarrow> (string, 'i) res"
  AddStringColumn :: "'i \<Rightarrow> string \<Rightarrow> string \<Rightarrow> 'i"

definition pgProcessor_Process ::
    "PgItems \<Rightarrow> TupleDataColumn \<Rightarrow> RelationMessageColumn \<Rightarrow> (oid \<rightharpoonup> CustomDataType) \<Rightarrow> (string, PgItems) res" where
  "pgProcessor_Process items tuple col customTypes =
     (if tcDataType tuple = CHR ''n'' then Inr (PgItems_AddColumn items (rcName col) None)
      else if tcDataType tuple = CHR ''t'' then Inr (PgItems_AddColumn items (rcName col) (Some (tcData tuple)))
      else if tcDataType tuple = CHR ''b'' then
        Inl (''binary encoding not supported, received for '' @ rcName col @ '' type '' @ FormatUint (unat (rcDataType col)))
      else Inl (''unknown column data type for column '' @ rcName col @ '': '' @ [tcDataType tuple]))"

definition pgProcessor :: "PgItems replProcessor" where
  "pgProcessor = \<lparr>NewItems = NewPgItems, Process = pgProcessor_Process,
     AddStringColumn = (\<lambda>items name value. PgItems_AddColumn items name (Some value))\<rparr>"

fun process_columns ::
    "'i replProcessor \<Rightarrow> string set \<Rightarrow> (oid \<rightharpoonup> CustomDataType) \<Rightarrow> TupleDataColumn list \<Rightarrow> RelationMessageColumn list
     \<Rightarrow> 'i \<Rightarrow> string set \<Rightarrow> (tuple_error, 'i \<times> string set) res" where
  "process_columns pr excl ct [] rcols items toast = Inr (items, toast)"
| "process_columns pr excl ct (tcol # tcols) [] items toast = Inl (TuplePanic IndexOutOfRange)"
| "process_columns pr excl ct (tcol # tcols) (rcol # rcols) items toast =
     (if rcName rcol \<in> excl then process_columns pr excl ct tcols rcols items toast
      else if tcDataType tcol = CHR ''u'' then
        process_columns pr excl ct tcols rcols items (insert (rcName rcol) toast)
      else (case Process pr items tcol rcol ct of
          Inl e \<Rightarrow> Inl (ColumnError e)
        | Inr items \<Rightarrow> process_columns pr excl ct tcols rcols items toast))"

definition processTuple ::
    "'i Items \<Rightarrow> 'i replProcessor \<Rightarrow> PostgresCDCSource \<Rightarrow> TupleData option \<Rightarrow> RelationMessage \<Rightarrow> NameAndExclude
     \<Rightarrow> (oid \<rightharpoonup> CustomDataType) \<Rightarrow> string \<Rightarrow> BaseRecord \<Rightarrow> (tuple_error, 'i \<times> string set) res" where
  "processTuple ops pr p tuple rel nameAndExclude ct schemaName base = (case tuple of
     None \<Rightarrow> Inr (NewItems pr 0, {})
   | Some cols \<Rightarrow>
      if length cols > length (rmColumns rel) then Inl (TooManyColumns (length cols) (length (rmColumns rel)))
      else
        bind_res (process_columns pr (Exclude nameAndExclude) ct cols (rmColumns rel) (NewItems pr (length cols)) {})
          (\<lambda>(items, toast).
            (let items = (if schemaName \<noteq> [] then AddStringColumn pr items ''_peerdb_source_schema'' schemaName else items);
                 items = (if originMetadataAsDestinationColumn p then UpdateWithBaseRecord ops items base else items)
             in Inr (items, toast))))"


section \<open>Row messages\<close>

definition baseRecord :: "PostgresCDCSource \<Rightarrow> lsn \<Rightarrow> BaseRecord" where
  "baseRecord p lsn = (case commitLock p of
     Some b \<Rightarrow> \<lparr>CheckpointID = sint lsn, CommitTimeNano = bmCommitTime b, TransactionID = unat (bmXid b)\<rparr>
   | None \<Rightarrow> \<lparr>CheckpointID = sint lsn, CommitTimeNano = 0, TransactionID = 0\<rparr>)"

text \<open>A lookup in a Go map gives the zero value for a missing key.\<close>

definition table_mapping :: "PostgresCDCSource \<Rightarrow> string \<Rightarrow> NameAndExclude" where
  "table_mapping p tableName = (case tableNameMapping p tableName of None \<Rightarrow> zero_NameAndExclude | Some m \<Rightarrow> m)"

definition tuple_res :: "string \<Rightarrow> (tuple_error, 'a) res \<Rightarrow> (pg_error, 'a) res" where
  "tuple_res tableName r = (case r of Inl e \<Rightarrow> Inl (TupleError tableName e) | Inr x \<Rightarrow> Inr x)"

text \<open>
  What the three handlers of row messages begin with: the relation of the parent, the name of
  the table (\<open>None\<close>: the table is not replicated and the message is dropped), the columns of the
  last relation message and the schema column.
\<close>

definition row_relation ::
    "relid \<Rightarrow> PostgresCDCSource \<Rightarrow> (pg_error, (string \<times> RelationMessage \<times> string) option \<times> PostgresCDCSource) res" where
  "row_relation msgRelID p0 =
     (let (relID, p) = getParentRelIDIfPartitioned msgRelID p0 in
      case srcTableIDNameMapping p relID of
        None \<Rightarrow> Inr (None, p)
      | Some tableName \<Rightarrow>
         (case relationMessageMapping p relID of
            None \<Rightarrow> Inl (UnknownRelation relID tableName)
          | Some rel \<Rightarrow>
             bind_res (getSourceSchemaForDestinationColumn relID tableName p) (\<lambda>(schemaName, p).
               Inr (Some (tableName, rel, schemaName), p))))"

definition processInsertMessage ::
    "'i Items \<Rightarrow> 'i replProcessor \<Rightarrow> (oid \<rightharpoonup> CustomDataType) \<Rightarrow> lsn \<Rightarrow> relid \<Rightarrow> TupleData option \<Rightarrow> PostgresCDCSource
     \<Rightarrow> (pg_error, 'i Record option \<times> PostgresCDCSource) res" where
  "processInsertMessage ops pr ct lsn relID tuple p0 =
     bind_res (row_relation relID p0) (\<lambda>(found, p). case found of
       None \<Rightarrow> Inr (None, p)
     | Some (tableName, rel, schemaName) \<Rightarrow>
        (let base = baseRecord p lsn in
         bind_res (tuple_res tableName (processTuple ops pr p tuple rel (table_mapping p tableName) ct schemaName base))
           (\<lambda>(items, _). Inr (Some (InsertRecord items tableName (neName (table_mapping p tableName)) 0 base), p))))"

text \<open>
  The old tuple of an update fills the columns that the new one lacks; a filled column is no
  longer an unchanged TOAST column and is dropped from the old items.
\<close>

definition backfill_old ::
    "'i Items \<Rightarrow> 'i \<Rightarrow> 'i \<Rightarrow> string set \<Rightarrow> 'i \<times> 'i \<times> string set" where
  "backfill_old ops oldItems newItems toast =
     (let (newItems, backfilledCols) = UpdateIfNotExists ops newItems oldItems in
      (fold (\<lambda>c s. DeleteColName ops s c) backfilledCols oldItems, newItems, toast - set backfilledCols))"

definition processUpdateMessage ::
    "'i Items \<Rightarrow> 'i replProcessor \<Rightarrow> (oid \<rightharpoonup> CustomDataType) \<Rightarrow> lsn \<Rightarrow> relid \<Rightarrow> char \<Rightarrow> TupleData option \<Rightarrow> TupleData option
     \<Rightarrow> string set \<Rightarrow> PostgresCDCSource \<Rightarrow> (pg_error, 'i Record option \<times> string set \<times> PostgresCDCSource) res" where
  "processUpdateMessage ops pr ct lsn msgRelID oldTupleType oldTuple newTuple warned p0 =
     bind_res (row_relation msgRelID p0) (\<lambda>(found, p). case found of
       None \<Rightarrow> Inr (None, warned, p)
     | Some (tableName, rel, schemaName) \<Rightarrow>
        (let warned = (if oldTupleType = CHR ''K'' then insert tableName warned else warned);
             mapping = table_mapping p tableName;
             base = baseRecord p lsn in
         bind_res (tuple_res tableName (processTuple ops pr p oldTuple rel mapping ct [] zero_BaseRecord))
           (\<lambda>(oldItems, _).
         bind_res (tuple_res tableName (processTuple ops pr p newTuple rel mapping ct schemaName base))
           (\<lambda>(newItems, toast).
             (let (oldItems, newItems, toast) = backfill_old ops oldItems newItems toast in
              Inr (Some (UpdateRecord oldItems newItems toast tableName (neName mapping) base), warned, p))))))"

definition processDeleteMessage ::
    "'i Items \<Rightarrow> 'i replProcessor \<Rightarrow> (oid \<rightharpoonup> CustomDataType) \<Rightarrow> lsn \<Rightarrow> relid \<Rightarrow> TupleData option \<Rightarrow> PostgresCDCSource
     \<Rightarrow> (pg_error, 'i Record option \<times> PostgresCDCSource) res" where
  "processDeleteMessage ops pr ct lsn relID oldTuple p0 =
     bind_res (row_relation relID p0) (\<lambda>(found, p). case found of
       None \<Rightarrow> Inr (None, p)
     | Some (tableName, rel, schemaName) \<Rightarrow>
        (let base = baseRecord p lsn in
         bind_res (tuple_res tableName (processTuple ops pr p oldTuple rel (table_mapping p tableName) ct schemaName base))
           (\<lambda>(items, _). Inr (Some (DeleteRecord items {} tableName (neName (table_mapping p tableName)) base), p))))"

section \<open>Relation messages\<close>

record addedColumnCatalogInfo =
  missingValue :: "string option"
  hasMissing :: bool
  notNull :: bool

definition zero_addedColumnCatalogInfo :: addedColumnCatalogInfo where
  "zero_addedColumnCatalogInfo = \<lparr>missingValue = None, hasMissing = False, notNull = False\<rparr>"

definition fetchAddedColumnCatalogInfo ::
    "pg_env \<Rightarrow> relid \<Rightarrow> string list \<Rightarrow> (pg_error, string \<rightharpoonup> addedColumnCatalogInfo) res" where
  "fetchAddedColumnCatalogInfo env relID columnNames =
     (if columnNames = [] then Inr Map.empty
      else (case added_column_rows env relID columnNames of
          Inl e \<Rightarrow> Inl (AddedColumnError e)
        | Inr rows \<Rightarrow> Inr (foldl (\<lambda>m (name, nn, hm, mv).
            m(name \<mapsto> \<lparr>missingValue = mv, hasMissing = hm, notNull = nn\<rparr>)) Map.empty rows)))"

definition GetSchemaNameOfColumnTypeByOID :: "pg_env \<Rightarrow> oid list \<Rightarrow> (pg_error, oid \<rightharpoonup> string) res" where
  "GetSchemaNameOfColumnTypeByOID env typeOIDs =
     (if typeOIDs = [] then Inr Map.empty
      else (case type_schema_rows env typeOIDs of
          Inl e \<Rightarrow> Inl (TypeSchemaError e)
        | Inr rows \<Rightarrow> Inr (foldl (\<lambda>m (oid, schemaName). m(oid \<mapsto> schemaName)) Map.empty rows)))"

text \<open>The type of a column in the type system of the mirror, and the OIDs warned about.\<close>

definition column_type ::
    "pg_env \<Rightarrow> TypeSystem \<Rightarrow> (oid \<rightharpoonup> CustomDataType) \<Rightarrow> 32 word \<Rightarrow> RelationMessageColumn \<Rightarrow> oid set
     \<Rightarrow> (pg_error, string \<times> oid set) res" where
  "column_type env system ct version column hush = (case system of
     TypeSystem_Q \<Rightarrow>
       (let (qKind, hush) = postgresOIDToQValueKind (type_for_oid env) (rcDataType column) ct version hush;
            qKind = (if qKind = QValueKindInvalid then
              (case ct (rcDataType column) of Some typeName \<Rightarrow> CustomTypeToQKind typeName version | None \<Rightarrow> qKind)
              else qKind)
        in Inr (qKind, hush))
   | TypeSystem_PG \<Rightarrow>
       (case OIDToName (type_for_oid env) (rcDataType column) ct of
          Inl e \<Rightarrow> Inl (TypeNameError e)
        | Inr typeName \<Rightarrow> Inr (typeName, hush)))"

definition relation_types ::
    "pg_env \<Rightarrow> TypeSystem \<Rightarrow> (oid \<rightharpoonup> CustomDataType) \<Rightarrow> 32 word \<Rightarrow> RelationMessageColumn list \<Rightarrow> oid set
     \<Rightarrow> (pg_error, (string \<rightharpoonup> string) \<times> oid set) res" where
  "relation_types env system ct version columns hush =
     fold_res (\<lambda>column (m, hush).
       bind_res (column_type env system ct version column hush) (\<lambda>(t, hush).
         Inr (m(rcName column \<mapsto> t), hush))) columns (Map.empty, hush)"

definition prev_types :: "TableSchema \<Rightarrow> string \<rightharpoonup> string" where
  "prev_types schema = foldl (\<lambda>m column. m(fdName column \<mapsto> fdType column)) Map.empty (tsColumns schema)"

definition isAddedColumnAndNotExcluded :: "(string \<rightharpoonup> string) \<Rightarrow> string set \<Rightarrow> string \<Rightarrow> bool" where
  "isAddedColumnAndNotExcluded prevRelMap excl columnName =
     (if prevRelMap columnName \<noteq> None then False else columnName \<notin> excl)"

definition type_in :: "(string \<rightharpoonup> string) \<Rightarrow> string \<Rightarrow> string" where
  "type_in m name = (case m name of None \<Rightarrow> [] | Some t \<Rightarrow> t)"

definition added_column ::
    "pg_env \<Rightarrow> TypeSystem \<Rightarrow> (string \<rightharpoonup> string) \<Rightarrow> (oid \<rightharpoonup> string) \<Rightarrow> (string \<rightharpoonup> addedColumnCatalogInfo)
     \<Rightarrow> RelationMessageColumn \<Rightarrow> FieldDescription" where
  "added_column env system currRelMap typeSchemas info column =
     (let catalogInfo = (case info (rcName column) of None \<Rightarrow> zero_addedColumnCatalogInfo | Some i \<Rightarrow> i);
          defaultExpr = (case missingValue catalogInfo of
            Some mv \<Rightarrow>
              if system = TypeSystem_Q
              then defaultExprFromPostgresMissingValue (json_unmarshal env) mv (type_in currRelMap (rcName column))
              else None
          | None \<Rightarrow> None)
      in \<lparr>fdName = rcName column, fdType = type_in currRelMap (rcName column),
          fdTypeModifier = rcTypeModifier column, fdNullable = \<not> notNull catalogInfo,
          fdTypeSchemaName = (case typeSchemas (rcDataType column) of None \<Rightarrow> [] | Some s \<Rightarrow> s),
          fdDefaultExpr = defaultExpr\<rparr>)"

text \<open>The keys under which a change of type has been warned about.\<close>

definition type_change_keys ::
    "string \<Rightarrow> (string \<rightharpoonup> string) \<Rightarrow> (string \<rightharpoonup> string) \<Rightarrow> RelationMessageColumn list \<Rightarrow> string set" where
  "type_change_keys srcTable prevRelMap currRelMap columns = set (concat (map (\<lambda>column.
     (case prevRelMap (rcName column) of
        Some t \<Rightarrow> if t \<noteq> type_in currRelMap (rcName column)
          then [srcTable @ ''.'' @ rcName column @ ''.'' @ t @ ''.'' @ type_in currRelMap (rcName column)] else []
      | None \<Rightarrow> [])) columns))"

definition processRelationMessage ::
    "pg_env \<Rightarrow> lsn \<Rightarrow> RelationMessage \<Rightarrow> PostgresCDCSource \<Rightarrow> (pg_error, 'i Record option \<times> PostgresCDCSource) res" where
  "processRelationMessage env lsn currRel p0 = (case srcTableIDNameMapping p0 (rmRelationID currRel) of
     None \<Rightarrow> Inr (None, p0)
   | Some currRelName \<Rightarrow>
      bind_res (fetchCustomTypeMapping env p0) (\<lambda>(ct, p).
      (case tableNameMapping p currRelName of
         None \<Rightarrow> Inl (NoTableNameMapping currRelName)
       | Some currRelDstInfo \<Rightarrow>
      (case tableNameSchemaMapping p (neName currRelDstInfo) of
         None \<Rightarrow> Inl (NoTableSchema (neName currRelDstInfo))
       | Some prevSchema \<Rightarrow>
      (let prevRelMap = prev_types prevSchema;
           columns = rmColumns currRel;
           added = filter (\<lambda>c. isAddedColumnAndNotExcluded prevRelMap (Exclude currRelDstInfo) (rcName c)) columns in
      bind_res (relation_types env (tsSystem prevSchema) ct (internalVersion p) columns (hushWarnOID p)) (\<lambda>(currRelMap, hush).
      bind_res (GetSchemaNameOfColumnTypeByOID env (map rcDataType added)) (\<lambda>typeSchemas.
      bind_res (fetchAddedColumnCatalogInfo env (rmRelationID currRel) (map rcName added)) (\<lambda>info.
        (let delta = \<lparr>deltaSrcTableName = currRelName, deltaDstTableName = neName currRelDstInfo,
               AddedColumns = map (added_column env (tsSystem prevSchema) currRelMap typeSchemas info) added,
               deltaSystem = tsSystem prevSchema, deltaNullableEnabled = tsNullableEnabled prevSchema\<rparr>;
             p = p\<lparr>hushWarnOID := hush,
                   warnedTypeChanges := warnedTypeChanges p \<union> type_change_keys currRelName prevRelMap currRelMap columns,
                   relationMessageMapping := (relationMessageMapping p)(rmRelationID currRel \<mapsto> currRel)\<rparr> in
         if AddedColumns delta \<noteq> [] then
           (case audit_schema_delta env delta of
              Some e \<Rightarrow> Inl (AuditError e)
            | None \<Rightarrow> Inr (Some (RelationRecord delta (baseRecord p lsn)), p))
         else Inr (None, p))))))))))"


section \<open>One message\<close>

record 'i processed =
  prRecord :: "'i Record option"
  prSource :: PostgresCDCSource
  prBatch :: "'i CDCStream"
  prWarned :: "string set"

definition processMessage ::
    "'i Items \<Rightarrow> 'i replProcessor \<Rightarrow> pg_env \<Rightarrow> bytes \<Rightarrow> lsn \<Rightarrow> lsn \<Rightarrow> PostgresCDCSource \<Rightarrow> 'i CDCStream \<Rightarrow> string set
     \<Rightarrow> (pg_error, 'i processed) res" where
  "processMessage ops pr env walData walStart currentClientXlogPos p0 batch warned =
     (case parse_wal env walData of
        Inl e \<Rightarrow> Inl (ParseError e)
      | Inr msg \<Rightarrow>
     bind_res (fetchCustomTypeMapping env p0) (\<lambda>(ct, p).
     (let ret = (\<lambda>rec p batch warned. \<lparr>prRecord = rec, prSource = p, prBatch = batch, prWarned = warned\<rparr>) in
      case msg of
        BeginMsg m \<Rightarrow> Inr (ret None (p\<lparr>commitLock := Some m\<rparr>) batch warned)
      | InsertMsg relID tuple \<Rightarrow>
          bind_res (processInsertMessage ops pr ct walStart relID tuple p) (\<lambda>(rec, p).
            Inr (ret rec p batch warned))
      | UpdateMsg relID oldTupleType oldTuple newTuple \<Rightarrow>
          bind_res (processUpdateMessage ops pr ct walStart relID oldTupleType oldTuple newTuple warned p)
            (\<lambda>(rec, warned, p). Inr (ret rec p batch warned))
      | DeleteMsg relID oldTuple \<Rightarrow>
          bind_res (processDeleteMessage ops pr ct walStart relID oldTuple p) (\<lambda>(rec, p).
            Inr (ret rec p batch warned))
      | CommitMsg commitLSN transactionEndLSN commitTime \<Rightarrow>
          Inr (ret None (p\<lparr>commitLock := None\<rparr>) (UpdateLatestCheckpointID batch (sint commitLSN)) warned)
      | RelationMsg m \<Rightarrow>
          bind_res (checkIfUnknownTableInherits env (rmRelationID m) p) (\<lambda>(relID, parentRelKind, p).
            if srcTableIDNameMapping p relID = None then Inr (ret None p batch warned)
            else if rmRelationID m \<noteq> relID \<and> parentRelKind = CHR ''p'' \<and> publishViaPartitionRoot p
            then Inr (ret None p batch warned)
            else
              bind_res (processRelationMessage env currentClientXlogPos (m\<lparr>rmRelationID := relID\<rparr>) p) (\<lambda>(rec, p).
                Inr (ret rec p batch warned)))
      | LogicalDecodingMsg transactional lsn prefix content \<Rightarrow>
          (let batch = (if \<not> transactional then UpdateLatestCheckpointID batch (sint lsn) else batch) in
           Inr (ret (Some (MessageRecord prefix content (baseRecord p lsn))) p batch warned))
      | OtherMsg t \<Rightarrow>
          Inr (ret None (p\<lparr>hushWarnUnhandledMessageType := insert t (hushWarnUnhandledMessageType p)\<rparr>) batch warned))))"

section \<open>Facts on the handlers\<close>

text \<open>The part of the source that no message changes.\<close>

definition same_config :: "PostgresCDCSource \<Rightarrow> PostgresCDCSource \<Rightarrow> bool" where
  "same_config p q \<longleftrightarrow>
     srcTableIDNameMapping q = srcTableIDNameMapping p \<and> tableNameMapping q = tableNameMapping p \<and>
     tableNameSchemaMapping q = tableNameSchemaMapping p \<and> commitLock q = commitLock p"

lemma same_config_refl [simp]: "same_config p p"
  by (simp add: same_config_def)

lemma same_config_trans: "same_config p q \<Longrightarrow> same_config q r \<Longrightarrow> same_config p r"
  by (simp add: same_config_def)

lemma fetchCustomTypeMapping_config:
  "fetchCustomTypeMapping env p = Inr (ct, q) \<Longrightarrow> same_config p q"
  by (auto simp: fetchCustomTypeMapping_def same_config_def split: option.splits sum.splits)

lemma getParent_config: "getParentRelIDIfPartitioned relID p = (r, q) \<Longrightarrow> same_config p q"
  by (auto simp: getParentRelIDIfPartitioned_def same_config_def split: option.splits)

lemma getSourceSchema_config:
  "getSourceSchemaForDestinationColumn relID t p = Inr (s, q) \<Longrightarrow> same_config p q"
  by (auto simp: getSourceSchemaForDestinationColumn_def same_config_def split: option.splits sum.splits)

lemma checkIfUnknownTableInherits_config:
  "checkIfUnknownTableInherits env relID p = Inr (r, k, q) \<Longrightarrow> same_config p q"
  using getParent_config [of relID p]
  by (auto simp: checkIfUnknownTableInherits_def same_config_def Let_def split: option.splits sum.splits prod.splits)

lemma row_relation_config: "row_relation relID p = Inr (f, q) \<Longrightarrow> same_config p q"
proof -
  assume r: "row_relation relID p = Inr (f, q)"
  obtain i p1 where p1: "getParentRelIDIfPartitioned relID p = (i, p1)" by fastforce
  have "same_config p1 q" using r p1
    by (auto simp: row_relation_def res_iff dest: getSourceSchema_config split: option.splits)
  then show ?thesis using getParent_config [OF p1] same_config_trans by blast
qed


subsection \<open>Tuples of the PostgreSQL type system\<close>

text \<open>What a tuple says of its columns: the values sent, and the columns left unchanged.\<close>

definition tuple_pairs :: "string set \<Rightarrow> TupleData \<Rightarrow> RelationMessageColumn list \<Rightarrow> (TupleDataColumn \<times> string) list" where
  "tuple_pairs excl tcols rcols = filter (\<lambda>(t, n). n \<notin> excl) (zip tcols (map rcName rcols))"

definition column_ok :: "TupleDataColumn \<Rightarrow> bool" where
  "column_ok t \<longleftrightarrow> tcDataType t \<in> {CHR ''u'', CHR ''n'', CHR ''t''}"

definition sent_values :: "(TupleDataColumn \<times> string) list \<Rightarrow> (string \<times> bytes option) list" where
  "sent_values ps = map (\<lambda>(t, n). (n, if tcDataType t = CHR ''n'' then None else Some (tcData t)))
     (filter (\<lambda>(t, n). tcDataType t \<noteq> CHR ''u'') ps)"

definition unchanged_names :: "(TupleDataColumn \<times> string) list \<Rightarrow> string set" where
  "unchanged_names ps = snd ` set (filter (\<lambda>(t, n). tcDataType t = CHR ''u'') ps)"

definition add_values :: "PgItems \<Rightarrow> (string \<times> bytes option) list \<Rightarrow> PgItems" where
  "add_values items vs = foldl (\<lambda>items (n, v). PgItems_AddColumn items n v) items vs"

lemma map_of_add_values: "map_of (add_values items vs) n = (case map_of (rev vs) n of None \<Rightarrow> map_of items n | Some v \<Rightarrow> Some v)"
proof (induction vs arbitrary: items)
  case (Cons a vs)
  obtain m v where a: "a = (m, v)" by (cases a)
  have "add_values items (a # vs) = add_values (PgItems_AddColumn items m v) vs" by (simp add: add_values_def a)
  then show ?case by (simp add: Cons a PgItems_AddColumn_def map_add_def split: option.split)
qed (simp add: add_values_def)

lemma pgProcess_ok:
  assumes "tcDataType t \<noteq> CHR ''u''"
  shows "Process pgProcessor items t r ct =
    (if column_ok t then Inr (PgItems_AddColumn items (rcName r) (if tcDataType t = CHR ''n'' then None else Some (tcData t)))
     else (case pgProcessor_Process items t r ct of Inl e \<Rightarrow> Inl e | Inr _ \<Rightarrow> Inl []))"
  using assms by (auto simp: pgProcessor_def pgProcessor_Process_def column_ok_def)

lemma process_columns_pg:
  assumes "length tcols \<le> length rcols"
  shows "(if \<forall>(t, n) \<in> set (tuple_pairs excl tcols rcols). column_ok t
      then process_columns pgProcessor excl ct tcols rcols items toast =
        Inr (add_values items (sent_values (tuple_pairs excl tcols rcols)),
             toast \<union> unchanged_names (tuple_pairs excl tcols rcols))
      else \<exists>e. process_columns pgProcessor excl ct tcols rcols items toast = Inl (ColumnError e))"
  using assms
proof (induction tcols arbitrary: rcols items toast)
  case Nil
  then show ?case by (simp add: tuple_pairs_def sent_values_def unchanged_names_def add_values_def)
next
  case (Cons t tcols)
  then obtain r rs where rcols: "rcols = r # rs" and len: "length tcols \<le> length rs" by (cases rcols) auto
  note IH = Cons.IH [OF len]
  let ?ps = "tuple_pairs excl tcols rs"
  consider (excl) "rcName r \<in> excl" | (unch) "rcName r \<notin> excl" "tcDataType t = CHR ''u''"
    | (val) "rcName r \<notin> excl" "tcDataType t \<noteq> CHR ''u''" "column_ok t"
    | (bad) "rcName r \<notin> excl" "tcDataType t \<noteq> CHR ''u''" "\<not> column_ok t" by blast
  then show ?case
  proof cases
    case excl
    then have "tuple_pairs excl (t # tcols) rcols = ?ps" by (simp add: tuple_pairs_def rcols)
    then show ?thesis using IH [of items toast] excl by (simp add: rcols)
  next
    case unch
    then have ps: "tuple_pairs excl (t # tcols) rcols = (t, rcName r) # ?ps" by (simp add: tuple_pairs_def rcols)
    have "column_ok t" using unch by (simp add: column_ok_def)
    moreover have "sent_values ((t, rcName r) # ?ps) = sent_values ?ps" using unch by (simp add: sent_values_def)
    moreover have "unchanged_names ((t, rcName r) # ?ps) = insert (rcName r) (unchanged_names ?ps)"
      using unch by (simp add: unchanged_names_def)
    ultimately show ?thesis using IH [of items "insert (rcName r) toast"] unch unfolding ps by (simp add: rcols)
  next
    case val
    let ?v = "if tcDataType t = CHR ''n'' then None else Some (tcData t)"
    have ps: "tuple_pairs excl (t # tcols) rcols = (t, rcName r) # ?ps" using val by (simp add: tuple_pairs_def rcols)
    have "add_values items (sent_values ((t, rcName r) # ?ps)) = add_values (PgItems_AddColumn items (rcName r) ?v) (sent_values ?ps)"
      using val by (simp add: sent_values_def add_values_def)
    moreover have "unchanged_names ((t, rcName r) # ?ps) = unchanged_names ?ps"
      using val by (simp add: unchanged_names_def)
    moreover have "process_columns pgProcessor excl ct (t # tcols) rcols items toast =
        process_columns pgProcessor excl ct tcols rs (PgItems_AddColumn items (rcName r) ?v) toast"
      using val by (simp add: rcols pgProcess_ok)
    ultimately show ?thesis using IH [of "PgItems_AddColumn items (rcName r) ?v" toast] val(3) unfolding ps by simp
  next
    case bad
    then have ps: "tuple_pairs excl (t # tcols) rcols = (t, rcName r) # ?ps" by (simp add: tuple_pairs_def rcols)
    have "\<exists>e. process_columns pgProcessor excl ct (t # tcols) rcols items toast = Inl (ColumnError e)"
      using bad by (simp add: rcols pgProcess_ok split: sum.split)
    then show ?thesis using bad unfolding ps by simp
  qed
qed


subsection \<open>Backfilling an update from its old tuple\<close>

context items_contract
begin

lemma backfill_old_spec:
  assumes "ok ol" and "ok new" and "backfill_old ops ol new toast = (ol', new', toast')"
  shows "cols new' = cols ol ++ cols new"
    and "toast' = toast - (dom (cols ol) - dom (cols new))"
    and "cols ol' x = (if x \<in> dom (cols new) then cols ol x else None)"
proof -
  obtain n u where u: "UpdateIfNotExists ops new ol = (n, u)" by fastforce
  have n: "cols n = cols ol ++ cols new" and s: "set u = dom (cols ol) - dom (cols new)"
    using cols_update [OF assms(2,1)] updated_cols [OF assms(2,1)] u by simp_all
  have eqs: "ol' = fold (\<lambda>c s. DeleteColName ops s c) u ol" "new' = n" "toast' = toast - set u"
    using assms(3) u by (simp_all add: backfill_old_def)
  show "cols new' = cols ol ++ cols new" and "toast' = toast - (dom (cols ol) - dom (cols new))"
    using eqs n s by simp_all
  show "cols ol' x = (if x \<in> dom (cols new) then cols ol x else None)"
    unfolding eqs(1) cols_delete_all [OF assms(1)] s by (auto simp: dom_def)
qed

end

lemma isAdded_iff: "isAddedColumnAndNotExcluded prev excl n \<longleftrightarrow> prev n = None \<and> n \<notin> excl"
  by (simp add: isAddedColumnAndNotExcluded_def)

subsection \<open>What one message does\<close>

lemma tuple_res_Inr [res_iff]: "tuple_res t r = Inr x \<longleftrightarrow> r = Inr x"
  by (simp add: tuple_res_def split: sum.split)

lemma processInsert_shape:
  assumes "processInsertMessage ops pr ct lsn relID tuple p = Inr (rec, q)"
  shows "same_config p q" and "rec = None \<or> (\<exists>i t b. rec = Some (InsertRecord i t (neName (table_mapping q t)) 0 b) \<and> b = baseRecord q lsn)"
proof -
  from assms obtain f where f: "row_relation relID p = Inr (f, q)"
    by (auto simp: processInsertMessage_def res_iff Let_def split: option.splits)
  show "same_config p q" by (rule row_relation_config [OF f])
  show "rec = None \<or> (\<exists>i t b. rec = Some (InsertRecord i t (neName (table_mapping q t)) 0 b) \<and> b = baseRecord q lsn)"
    using assms f by (auto simp: processInsertMessage_def res_iff Let_def split: option.splits)
qed

lemma processDelete_shape:
  assumes "processDeleteMessage ops pr ct lsn relID tuple p = Inr (rec, q)"
  shows "same_config p q" and "rec = None \<or> (\<exists>i t b. rec = Some (DeleteRecord i {} t (neName (table_mapping q t)) b) \<and> b = baseRecord q lsn)"
proof -
  from assms obtain f where f: "row_relation relID p = Inr (f, q)"
    by (auto simp: processDeleteMessage_def res_iff Let_def split: option.splits)
  show "same_config p q" by (rule row_relation_config [OF f])
  show "rec = None \<or> (\<exists>i t b. rec = Some (DeleteRecord i {} t (neName (table_mapping q t)) b) \<and> b = baseRecord q lsn)"
    using assms f by (auto simp: processDeleteMessage_def res_iff Let_def split: option.splits)
qed

lemma processUpdate_shape:
  assumes "processUpdateMessage ops pr ct lsn relID ty old new warned p = Inr (rec, warned', q)"
  shows "same_config p q" and "rec = None \<or> (\<exists>oi ni u t b. rec = Some (UpdateRecord oi ni u t (neName (table_mapping q t)) b) \<and> b = baseRecord q lsn)"
proof -
  from assms obtain f where f: "row_relation relID p = Inr (f, q)"
    by (auto simp: processUpdateMessage_def res_iff Let_def case_prod_unfold split: option.splits)
  show "same_config p q" by (rule row_relation_config [OF f])
  show "rec = None \<or> (\<exists>oi ni u t b. rec = Some (UpdateRecord oi ni u t (neName (table_mapping q t)) b) \<and> b = baseRecord q lsn)"
    using assms f by (auto simp: processUpdateMessage_def res_iff Let_def case_prod_unfold split: option.splits)
qed

lemma processRelation_shape:
  assumes "processRelationMessage env lsn m p = Inr (rec, q)"
  shows "same_config p q" and "rec = None \<or> (\<exists>d b. rec = Some (RelationRecord d b) \<and> AddedColumns d \<noteq> [])"
proof -
  have "same_config p q \<and> (rec = None \<or> (\<exists>d b. rec = Some (RelationRecord d b) \<and> AddedColumns d \<noteq> []))"
  proof (cases "srcTableIDNameMapping p (rmRelationID m)")
    case None
    with assms show ?thesis by (simp add: processRelationMessage_def)
  next
    case (Some n)
    with assms obtain ct p1 where ct: "fetchCustomTypeMapping env p = Inr (ct, p1)"
      by (auto simp: processRelationMessage_def res_iff)
    have "same_config p1 q \<and> (rec = None \<or> (\<exists>d b. rec = Some (RelationRecord d b) \<and> AddedColumns d \<noteq> []))"
      using assms Some ct
      by (auto simp: processRelationMessage_def res_iff Let_def same_config_def split: option.splits if_split_asm)
    with fetchCustomTypeMapping_config [OF ct] show ?thesis using same_config_trans by blast
  qed
  then show "same_config p q" and "rec = None \<or> (\<exists>d b. rec = Some (RelationRecord d b) \<and> AddedColumns d \<noteq> [])"
    by simp_all
qed


fun lock_after :: "logical_msg \<Rightarrow> BeginMessage option \<Rightarrow> BeginMessage option" where
  "lock_after (BeginMsg m) l = Some m"
| "lock_after (CommitMsg _ _ _) l = None"
| "lock_after _ l = l"

fun batch_after :: "logical_msg \<Rightarrow> 'i CDCStream \<Rightarrow> 'i CDCStream" where
  "batch_after (CommitMsg commitLSN _ _) b = UpdateLatestCheckpointID b (sint commitLSN)"
| "batch_after (LogicalDecodingMsg transactional lsn _ _) b =
     (if transactional then b else UpdateLatestCheckpointID b (sint lsn))"
| "batch_after _ b = b"

fun record_fits :: "logical_msg \<Rightarrow> 'i Record \<Rightarrow> bool" where
  "record_fits (InsertMsg _ _) r = is_InsertRecord r"
| "record_fits (UpdateMsg _ _ _ _) r = is_UpdateRecord r"
| "record_fits (DeleteMsg _ _) r = is_DeleteRecord r"
| "record_fits (RelationMsg _) r = (is_RelationRecord r \<and> AddedColumns (SchemaDelta r) \<noteq> [])"
| "record_fits (LogicalDecodingMsg _ _ _ _) r = is_MessageRecord r"
| "record_fits _ r = False"

definition message_ok :: "logical_msg \<Rightarrow> PostgresCDCSource \<Rightarrow> 'i CDCStream \<Rightarrow> 'i processed \<Rightarrow> bool" where
  "message_ok msg p batch r \<longleftrightarrow>
     commitLock (prSource r) = lock_after msg (commitLock p) \<and>
     srcTableIDNameMapping (prSource r) = srcTableIDNameMapping p \<and>
     tableNameMapping (prSource r) = tableNameMapping p \<and>
     tableNameSchemaMapping (prSource r) = tableNameSchemaMapping p \<and>
     prBatch r = batch_after msg batch \<and>
     (\<forall>rec. prRecord r = Some rec \<longrightarrow> record_fits msg rec)"

lemma message_ok_config:
  assumes "same_config p q" and "lock_after msg (commitLock p) = commitLock p" and "batch_after msg batch = batch"
    and "\<And>rc. rec = Some rc \<Longrightarrow> record_fits msg rc"
  shows "message_ok msg p batch \<lparr>prRecord = rec, prSource = q, prBatch = batch, prWarned = w\<rparr>"
  using assms by (simp add: message_ok_def same_config_def)

lemma message_ok_trans:
  "same_config p q \<Longrightarrow> message_ok msg q batch r \<Longrightarrow> message_ok msg p batch r"
  by (simp add: message_ok_def same_config_def)

lemma processMessage_ok:
  assumes run: "processMessage ops pr env d ws xpos p0 batch warned = Inr r" and msg: "parse_wal env d = Inr msg"
  shows "message_ok msg p0 batch r"
proof -
  from run msg obtain ct p where ct: "fetchCustomTypeMapping env p0 = Inr (ct, p)"
    by (auto simp: processMessage_def res_iff)
  note run' = run [unfolded processMessage_def msg ct Let_def, simplified]
  have "message_ok msg p batch r"
  proof (cases msg)
    case (InsertMsg i t)
    with run' obtain rec q where q: "processInsertMessage ops pr ct ws i t p = Inr (rec, q)"
      and r: "r = \<lparr>prRecord = rec, prSource = q, prBatch = batch, prWarned = warned\<rparr>" by (auto simp: res_iff)
    show ?thesis unfolding r using processInsert_shape [OF q] InsertMsg by (intro message_ok_config) auto
  next
    case (DeleteMsg i t)
    with run' obtain rec q where q: "processDeleteMessage ops pr ct ws i t p = Inr (rec, q)"
      and r: "r = \<lparr>prRecord = rec, prSource = q, prBatch = batch, prWarned = warned\<rparr>" by (auto simp: res_iff)
    show ?thesis unfolding r using processDelete_shape [OF q] DeleteMsg by (intro message_ok_config) auto
  next
    case (UpdateMsg i ty old new)
    with run' obtain rec w q where q: "processUpdateMessage ops pr ct ws i ty old new warned p = Inr (rec, w, q)"
      and r: "r = \<lparr>prRecord = rec, prSource = q, prBatch = batch, prWarned = w\<rparr>" by (auto simp: res_iff)
    show ?thesis unfolding r using processUpdate_shape [OF q] UpdateMsg by (intro message_ok_config) auto
  next
    case (RelationMsg m)
    with run' obtain i k p1 where i: "checkIfUnknownTableInherits env (rmRelationID m) p = Inr (i, k, p1)"
      by (auto simp: res_iff)
    note p1 = checkIfUnknownTableInherits_config [OF i]
    have "message_ok msg p1 batch r"
    proof (cases "srcTableIDNameMapping p1 i = None \<or> (rmRelationID m \<noteq> i \<and> k = CHR ''p'' \<and> publishViaPartitionRoot p1)")
      case True
      then have "r = \<lparr>prRecord = None, prSource = p1, prBatch = batch, prWarned = warned\<rparr>"
        using run' RelationMsg i by (auto split: if_split_asm)
      then show ?thesis using RelationMsg by (simp add: message_ok_def)
    next
      case False
      then obtain rec q where q: "processRelationMessage env xpos (m\<lparr>rmRelationID := i\<rparr>) p1 = Inr (rec, q)"
        and r: "r = \<lparr>prRecord = rec, prSource = q, prBatch = batch, prWarned = warned\<rparr>"
        using run' RelationMsg i by (auto simp: res_iff)
      show ?thesis unfolding r using processRelation_shape [OF q] RelationMsg by (intro message_ok_config) auto
    qed
    then show ?thesis by (rule message_ok_trans [OF p1])
  qed (use run' in \<open>auto simp: message_ok_def\<close>)
  then show ?thesis by (rule message_ok_trans [OF fetchCustomTypeMapping_config [OF ct]])
qed


section \<open>Properties\<close>

definition env_sample :: pg_env where
  "env_sample = \<lparr>
     parse_wal = (\<lambda>d. if d = ''C'' then Inr (CommitMsg 40 48 9)
                     else if d = ''B'' then Inr (BeginMsg \<lparr>bmFinalLSN = 40, bmCommitTime = 9, bmXid = 3\<rparr>)
                     else if d = ''M'' then Inr (LogicalDecodingMsg False 44 ''p'' ''c'')
                     else if d = ''I'' then Inr (InsertMsg 16 (Some [\<lparr>tcDataType = CHR ''t'', tcData = ''7''\<rparr>,
                            \<lparr>tcDataType = CHR ''n'', tcData = []\<rparr>]))
                     else Inl ''bad message''),
     custom_type_rows = Inr [],
     inherits_query = (\<lambda>r relID. if relID = 17 then Inr (Some 16) else Inr None),
     type_schema_rows = (\<lambda>oids. Inr []),
     added_column_rows = (\<lambda>relID names. Inr []),
     audit_schema_delta = (\<lambda>d. None),
     type_for_oid = Map.empty,
     json_unmarshal = (\<lambda>s. Inl ''bad json'')\<rparr>"

definition schema_sample :: TableSchema where
  "schema_sample = \<lparr>PrimaryKeyColumns = [''id''], IsReplicaIdentityFull = False, tsSystem = TypeSystem_Q,
     tsNullableEnabled = False,
     tsColumns = [\<lparr>fdName = ''id'', fdType = ''int32'', fdTypeModifier = -1, fdNullable = False,
       fdTypeSchemaName = [], fdDefaultExpr = None\<rparr>]\<rparr>"

definition rel_sample :: RelationMessage where
  "rel_sample = \<lparr>rmRelationID = 16, rmNamespace = ''public'', rmRelationName = ''t'',
     rmColumns = [\<lparr>rcName = ''id'', rcDataType = 23, rcTypeModifier = -1\<rparr>,
                  \<lparr>rcName = ''note'', rcDataType = 25, rcTypeModifier = -1\<rparr>]\<rparr>"

definition source_sample :: PostgresCDCSource where
  "source_sample = \<lparr>srcTableIDNameMapping = [16 \<mapsto> ''public.t''], schemaNameForRelID = None,
     tableNameMapping = [''public.t'' \<mapsto> \<lparr>Exclude = {}, neName = ''t''\<rparr>],
     tableNameSchemaMapping = [''t'' \<mapsto> schema_sample],
     relationMessageMapping = [16 \<mapsto> rel_sample], commitLock = None,
     childToParentRelIDMapping = Map.empty, idToRelKindMap = Map.empty, publishViaPartitionRoot = True,
     hushWarnUnhandledMessageType = {}, hushWarnUnknownTableDetected = {},
     handleInheritanceForNonPartitionedTables = False, originMetadataAsDestinationColumn = False,
     internalVersion = 0, warnedTypeChanges = {}, customTypeMapping = Some Map.empty, hushWarnOID = {}\<rparr>"

lemmas sample_defs = env_sample_def source_sample_def rel_sample_def schema_sample_def

text \<open>
  C22: what a processed message may change. Only a begin message takes the commit lock and only a
  commit message releases it; the checkpoint of the batch moves only on a commit or on a
  non-transactional message; the tables and their schemas stay; and the record is of the kind
  of the message, a schema change only when it adds columns.
\<close>

theorem processMessage_effect:
  assumes "processMessage ops pr env d ws xpos p batch warned = Inr r" and "parse_wal env d = Inr msg"
  shows "commitLock (prSource r) = lock_after msg (commitLock p) \<and>
     prBatch r = batch_after msg batch \<and>
     srcTableIDNameMapping (prSource r) = srcTableIDNameMapping p \<and>
     tableNameMapping (prSource r) = tableNameMapping p \<and>
     tableNameSchemaMapping (prSource r) = tableNameSchemaMapping p \<and>
     (\<forall>rec. prRecord r = Some rec \<longrightarrow> record_fits msg rec)"
  using processMessage_ok [OF assms] by (simp add: message_ok_def)

theorem processMessage_effect_witness:
  "\<exists>r. processMessage PgItems_ops pgProcessor env_sample ''C'' 40 0
      (source_sample\<lparr>commitLock := Some \<lparr>bmFinalLSN = 40, bmCommitTime = 9, bmXid = 3\<rparr>\<rparr>) (NewCDCStream 4) {} = Inr r \<and>
    commitLock (prSource r) = None \<and> lastCheckpointID (prBatch r) = 40"
proof -
  let ?p = "source_sample\<lparr>commitLock := Some \<lparr>bmFinalLSN = 40, bmCommitTime = 9, bmXid = 3\<rparr>\<rparr>"
  obtain r where r: "processMessage PgItems_ops pgProcessor env_sample ''C'' 40 0 ?p (NewCDCStream 4) {} = Inr r"
    by (simp add: processMessage_def fetchCustomTypeMapping_def sample_defs)
  have m: "parse_wal env_sample ''C'' = Inr (CommitMsg 40 48 9)" by (simp add: env_sample_def)
  from processMessage_effect [OF r m] r show ?thesis
    by (simp add: UpdateLatestCheckpointID_def NewCDCStream_def)
qed

text \<open>
  C23: a tuple of the PostgreSQL type system. It is decoded exactly when no column that is not
  excluded has an unknown or binary format; the items then hold the sent values by column name
  (a NULL as nil), the columns marked unchanged are reported and have no value, excluded
  columns appear nowhere.
\<close>

theorem processTuple_pg_columns:
  assumes "length cols \<le> length (rmColumns rel)" and "\<not> originMetadataAsDestinationColumn p"
  shows "(if \<forall>(t, n) \<in> set (tuple_pairs (Exclude ne) cols (rmColumns rel)). column_ok t
     then \<exists>items. processTuple PgItems_ops pgProcessor p (Some cols) rel ne ct [] base =
            Inr (items, unchanged_names (tuple_pairs (Exclude ne) cols (rmColumns rel))) \<and>
            map_of items = map_of (rev (sent_values (tuple_pairs (Exclude ne) cols (rmColumns rel))))
     else \<exists>e. processTuple PgItems_ops pgProcessor p (Some cols) rel ne ct [] base = Inl (ColumnError e))"
  using process_columns_pg [OF assms(1), of "Exclude ne" ct "NewItems pgProcessor (length cols)" "{}"] assms
  by (auto simp: processTuple_def pgProcessor_def NewPgItems_def fun_eq_iff map_of_add_values split: if_splits option.split)


theorem processTuple_pg_columns_witness:
  "\<exists>items. processTuple PgItems_ops pgProcessor source_sample
     (Some [\<lparr>tcDataType = CHR ''t'', tcData = ''7''\<rparr>, \<lparr>tcDataType = CHR ''u'', tcData = []\<rparr>])
     rel_sample \<lparr>Exclude = {}, neName = ''t''\<rparr> Map.empty [] zero_BaseRecord = Inr (items, {''note''}) \<and>
     map_of items ''id'' = Some (Some ''7'') \<and> map_of items ''note'' = None"
  using processTuple_pg_columns [of "[\<lparr>tcDataType = CHR ''t'', tcData = ''7''\<rparr>, \<lparr>tcDataType = CHR ''u'', tcData = []\<rparr>]"
      rel_sample source_sample "\<lparr>Exclude = {}, neName = ''t''\<rparr>" Map.empty zero_BaseRecord]
  by (auto simp: sample_defs tuple_pairs_def column_ok_def unchanged_names_def sent_values_def)

text \<open>
  C24: an update whose old tuple is known (replica identity full). Columns the new tuple does not
  carry take their old value and are no longer listed as unchanged; columns the new tuple
  carries keep their new value; the old items keep only columns that the new tuple carries.
\<close>

theorem update_backfill_from_old:
  assumes "gomap_ok old" and "gomap_ok new"
    and "backfill_old PgItems_ops old new toast = (old', new', toast')"
  shows "map_of new' = map_of old ++ map_of new \<and>
         toast' = toast - (dom (map_of old) - dom (map_of new)) \<and>
         (\<forall>x. map_of old' x = (if x \<in> dom (map_of new) then map_of old x else None))"
  using pgi.backfill_old_spec [OF assms] by blast

theorem update_backfill_from_old_witness:
  "(case backfill_old PgItems_ops [(''id'', Some ''1''), (''doc'', Some ''x'')] [(''id'', Some ''2'')] {''doc'', ''img''} of
      (old', new', toast') \<Rightarrow> map_of new' ''doc'' = Some (Some ''x'') \<and> map_of new' ''id'' = Some (Some ''2'') \<and>
        toast' = {''img''} \<and> map_of old' ''doc'' = None)"
proof -
  obtain o' n' t' where r: "backfill_old PgItems_ops [(''id'', Some ''1''), (''doc'', Some ''x'')] [(''id'', Some ''2'')]
      {''doc'', ''img''} = (o', n', t')" by (metis prod_cases3)
  have "map_of n' = map_of [(''id'', Some ''1''), (''doc'', Some ''x'')] ++ map_of [(''id'', Some ''2'')] \<and>
      t' = {''doc'', ''img''} - (dom (map_of [(''id'', Some ''1''), (''doc'', Some ''x'')]) - dom (map_of [(''id'', Some ''2'')])) \<and>
      (\<forall>x. map_of o' x = (if x \<in> dom (map_of [(''id'', Some ''2'')]) then map_of [(''id'', Some ''1''), (''doc'', Some ''x'')] x else None))"
    by (rule update_backfill_from_old [OF _ _ r]) simp_all
  then show ?thesis using r by auto
qed

lemma relation_message_stored:
  assumes "processRelationMessage env lsn m p = Inr (rec, q)" and "srcTableIDNameMapping p (rmRelationID m) = Some name"
  shows "relationMessageMapping q (rmRelationID m) = Some m"
proof -
  from assms obtain ct p1 where ct: "fetchCustomTypeMapping env p = Inr (ct, p1)"
    by (auto simp: processRelationMessage_def res_iff)
  obtain info where info: "tableNameMapping p1 name = Some info"
    using assms ct by (cases "tableNameMapping p1 name") (auto simp: processRelationMessage_def)
  obtain schema where schema: "tableNameSchemaMapping p1 (neName info) = Some schema"
    using assms ct info by (cases "tableNameSchemaMapping p1 (neName info)") (auto simp: processRelationMessage_def)
  show ?thesis using assms ct info schema
    by (auto simp: processRelationMessage_def res_iff Let_def split: option.splits if_split_asm)
qed

text \<open>
  C25: a relation message of a replicated table. The stored columns are those of the message; a
  schema change is reported exactly when the message has columns that the known schema lacks
  and the mirror does not exclude, and it lists these columns, in order, for the destination
  table of the mapping.
\<close>

theorem relation_message_delta:
  assumes run: "processRelationMessage env lsn m p = Inr (rec, q)"
    and src: "srcTableIDNameMapping p (rmRelationID m) = Some name"
    and dst: "tableNameMapping p name = Some info" and sch: "tableNameSchemaMapping p (neName info) = Some schema"
  shows "relationMessageMapping q (rmRelationID m) = Some m \<and>
     (let new = filter (\<lambda>n. prev_types schema n = None \<and> n \<notin> Exclude info) (map rcName (rmColumns m)) in
      if new = [] then rec = None
      else \<exists>d b. rec = Some (RelationRecord d b) \<and> map fdName (AddedColumns d) = new \<and>
             deltaSrcTableName d = name \<and> deltaDstTableName d = neName info)"
proof -
  from run src obtain ct p1 where ct: "fetchCustomTypeMapping env p = Inr (ct, p1)"
    by (auto simp: processRelationMessage_def res_iff)
  have cfg: "tableNameMapping p1 name = Some info" "tableNameSchemaMapping p1 (neName info) = Some schema"
    using fetchCustomTypeMapping_config [OF ct] dst sch by (simp_all add: same_config_def)
  let ?f = "\<lambda>c. isAddedColumnAndNotExcluded (prev_types schema) (Exclude info) (rcName c)"
  have new: "filter (\<lambda>n. prev_types schema n = None \<and> n \<notin> Exclude info) (map rcName (rmColumns m)) =
      map rcName (filter ?f (rmColumns m))"
    by (simp add: filter_map comp_def isAdded_iff)
  show ?thesis
    using run src ct cfg unfolding new Let_def
    by (auto simp: processRelationMessage_def res_iff Let_def added_column_def split: option.splits if_split_asm)
qed


theorem relation_message_delta_witness:
  "\<exists>rec q. processRelationMessage env_sample 5 rel_sample source_sample = Inr (rec, q) \<and>
     (\<exists>d b. rec = Some (RelationRecord d b :: PgItems Record) \<and> map fdName (AddedColumns d) = [''note''])"
proof -
  obtain rec :: "PgItems Record option" and q where
    run: "processRelationMessage env_sample 5 rel_sample source_sample = Inr (rec, q)"
    by (simp add: processRelationMessage_def fetchCustomTypeMapping_def sample_defs relation_types_def
        column_type_def postgresOIDToQValueKind_def PostgresOIDToQValueKind_def prev_types_def
        isAdded_iff GetSchemaNameOfColumnTypeByOID_def fetchAddedColumnCatalogInfo_def Let_def)
  have "relationMessageMapping q (rmRelationID rel_sample) = Some rel_sample \<and>
     (let new = filter (\<lambda>n. prev_types schema_sample n = None \<and> n \<notin> Exclude \<lparr>Exclude = {}, neName = ''t''\<rparr>)
          (map rcName (rmColumns rel_sample)) in
      if new = [] then rec = None
      else \<exists>d b. rec = Some (RelationRecord d b) \<and> map fdName (AddedColumns d) = new \<and>
             deltaSrcTableName d = ''public.t'' \<and> deltaDstTableName d = neName \<lparr>Exclude = {}, neName = ''t''\<rparr>)"
    by (rule relation_message_delta [OF run]) (simp_all add: sample_defs)
  then show ?thesis using run by (auto simp: prev_types_def sample_defs)
qed



end
