(* ===== verification/CdcStore.thy ===== *)
theory CdcStore
  imports Records
begin

text \<open>
  \<^verbatim>\<open>flow/connectors/utils/cdc_store.go\<close>: the latest record of each key of a batch, kept in
  memory up to a number of keys or an amount of heap, and in a Pebble database beyond that.
  Pebble, the gob codec and the file system are not part of the repository; they are the
  fields of \<open>pebble_ext\<close>, and \<open>pebble_laws\<close> states the documented behaviour that the store
  relies on: a write is read back, distinct keys have distinct encodings, and gob decodes what
  it encoded, except that it does not tell a nil byte slice from an empty one: the format
  has the number of bytes and the bytes. Any of these calls may fail.
\<close>

datatype pebble_get = PebbleFound bytes | PebbleNotFound | PebbleError string

record ('i, 'p) pebble_ext =
  pebble_Open :: "string \<Rightarrow> (string, 'p) res"
  pebble_Set :: "'p \<Rightarrow> bytes \<Rightarrow> bytes \<Rightarrow> (string, 'p) res"
  pebble_Get :: "'p \<Rightarrow> bytes \<Rightarrow> pebble_get"
  pebble_Close :: "'p \<Rightarrow> string option"
  gob_key :: "TableWithPkey \<Rightarrow> (string, bytes) res"
  gob_rec :: "'i Record \<Rightarrow> (string, bytes) res"
  gob_decode :: "bytes \<Rightarrow> (string, 'i Record) res"
  os_RemoveAll :: "string \<Rightarrow> string option"

datatype store_error =
    SpillRecordsSetting string
  | SpillMemPercentSetting string
  | UnableToEncode string
  | PebbleInitFailed string
  | PebbleStoreFailed string
  | RetrieveFailed TableWithPkey string
  | DecodeFailed string
  | CloseFailed string
  | DeleteFailed string
  | StorePanic go_panic

text \<open>\<open>inMemoryRecords = None\<close> is the nil map that closing the store leaves.\<close>

record ('i, 'p) CDCStore =
  inMemoryRecords :: "(TableWithPkey, 'i Record) gomap option"
  pebbleDB :: "'p option"
  storeFlowJobName :: string
  dbFolderName :: string
  thresholdReason :: string
  memThresholdBytes :: "64 word"
  numRecordsSwitchThreshold :: int
  numRecords :: "32 word"

definition encVal :: "(string, bytes) res \<Rightarrow> (store_error, bytes) res" where
  "encVal encoded = (case encoded of Inl e \<Rightarrow> Inl (UnableToEncode e) | Inr b \<Rightarrow> Inr b)"

text \<open>
  The two settings, the memory limit of the worker, the temporary directory and the random
  suffix are arguments.
\<close>

definition NewCDCStore ::
    "(string, int) res \<Rightarrow> (string, int) res \<Rightarrow> 64 word \<Rightarrow> string \<Rightarrow> string \<Rightarrow> string
     \<Rightarrow> (store_error, ('i, 'p) CDCStore) res" where
  "NewCDCStore recordsThreshold memPercentSetting maxMemBytes tempDir randomSuffix flowJobName =
     (case recordsThreshold of
        Inl e \<Rightarrow> Inl (SpillRecordsSetting e)
      | Inr threshold \<Rightarrow>
         (case memPercentSetting of
            Inl e \<Rightarrow> Inl (SpillMemPercentSetting e)
          | Inr memPercent \<Rightarrow> Inr \<lparr>
              inMemoryRecords = Some [],
              pebbleDB = None,
              storeFlowJobName = flowJobName,
              dbFolderName = tempDir @ ''/'' @ flowJobName @ ''_'' @ randomSuffix,
              thresholdReason = [],
              memThresholdBytes =
                (if memPercent > 0 \<and> maxMemBytes > 0 then maxMemBytes * word_of_int memPercent div 100 else 0),
              numRecordsSwitchThreshold = threshold,
              numRecords = 0\<rparr>))"

definition mem_records :: "('i, 'p) CDCStore \<Rightarrow> (TableWithPkey, 'i Record) gomap" where
  "mem_records c = (case inMemoryRecords c of None \<Rightarrow> [] | Some m \<Rightarrow> m)"

definition initPebbleDB :: "('i, 'p) pebble_ext \<Rightarrow> ('i, 'p) CDCStore \<Rightarrow> (store_error, ('i, 'p) CDCStore) res" where
  "initPebbleDB px c = (case pebbleDB c of
     Some _ \<Rightarrow> Inr c
   | None \<Rightarrow> (case pebble_Open px (dbFolderName c) of
       Inl e \<Rightarrow> Inl (PebbleInitFailed e)
     | Inr db \<Rightarrow> Inr (c\<lparr>pebbleDB := Some db\<rparr>)))"

text \<open>\<open>heap\<close> is what reading the heap metric returns.\<close>

definition diskSpillThresholdsExceeded :: "64 word \<Rightarrow> ('i, 'p) CDCStore \<Rightarrow> bool \<times> ('i, 'p) CDCStore" where
  "diskSpillThresholdsExceeded heap c =
     (if 0 \<le> numRecordsSwitchThreshold c \<and> numRecordsSwitchThreshold c \<le> int (length (mem_records c)) then
        (True, c\<lparr>thresholdReason := ''more than '' @ FormatInt (numRecordsSwitchThreshold c) @
                   '' primary keys read, spilling to disk''\<rparr>)
      else if memThresholdBytes c > 0 \<and> heap \<ge> memThresholdBytes c then
        (True, c\<lparr>thresholdReason := ''memalloc greater than '' @ FormatUint (unat (memThresholdBytes c)) @
                   '' bytes, spilling to disk''\<rparr>)
      else (False, c))"

definition store_in_memory ::
    "TableWithPkey \<Rightarrow> 'i Record \<Rightarrow> ('i, 'p) CDCStore \<Rightarrow> (store_error, ('i, 'p) CDCStore) res" where
  "store_in_memory key rec c = (case inMemoryRecords c of
     None \<Rightarrow> Inl (StorePanic AssignToNilMap)
   | Some m \<Rightarrow> Inr (c\<lparr>inMemoryRecords := Some (AList.update key rec m)\<rparr>))"

definition store_on_disk ::
    "('i, 'p) pebble_ext \<Rightarrow> TableWithPkey \<Rightarrow> 'i Record \<Rightarrow> ('i, 'p) CDCStore \<Rightarrow> (store_error, ('i, 'p) CDCStore) res" where
  "store_on_disk px key rec c =
     bind_res (initPebbleDB px c) (\<lambda>c.
     bind_res (encVal (gob_key px key)) (\<lambda>encodedKey.
     bind_res (encVal (gob_rec px rec)) (\<lambda>encodedRec.
       (case pebbleDB c of
          None \<Rightarrow> Inl (StorePanic NilDereference)
        | Some db \<Rightarrow> (case pebble_Set px db encodedKey encodedRec of
            Inl e \<Rightarrow> Inl (PebbleStoreFailed e)
          | Inr db' \<Rightarrow> Inr (c\<lparr>pebbleDB := Some db'\<rparr>))))))"

definition store_Set ::
    "('i, 'p) pebble_ext \<Rightarrow> 64 word \<Rightarrow> ('i, 'p) CDCStore \<Rightarrow> TableWithPkey \<Rightarrow> 'i Record
     \<Rightarrow> (store_error, ('i, 'p) CDCStore) res" where
  "store_Set px heap c key rec =
     bind_res
       (if TableName key \<noteq> [] then
          (if map_of (mem_records c) key \<noteq> None then store_in_memory key rec c
           else (let (exceeded, c) = diskSpillThresholdsExceeded heap c in
                 if \<not> exceeded then store_in_memory key rec c else store_on_disk px key rec c))
        else Inr c)
       (\<lambda>c. Inr (c\<lparr>numRecords := numRecords c + 1\<rparr>))"

definition store_Get ::
    "('i, 'p) pebble_ext \<Rightarrow> ('i, 'p) CDCStore \<Rightarrow> TableWithPkey \<Rightarrow> (store_error, 'i Record option) res" where
  "store_Get px c key = (case map_of (mem_records c) key of
     Some rec \<Rightarrow> Inr (Some rec)
   | None \<Rightarrow> (case pebbleDB c of
       None \<Rightarrow> Inr None
     | Some db \<Rightarrow>
         bind_res (encVal (gob_key px key)) (\<lambda>encodedKey.
           (case pebble_Get px db encodedKey of
              PebbleNotFound \<Rightarrow> Inr None
            | PebbleError e \<Rightarrow> Inl (RetrieveFailed key e)
            | PebbleFound encodedRec \<Rightarrow> (case gob_decode px encodedRec of
                Inl e \<Rightarrow> Inl (DecodeFailed e)
              | Inr rec \<Rightarrow> Inr (Some rec))))))"

definition store_Close :: "('i, 'p) pebble_ext \<Rightarrow> ('i, 'p) CDCStore \<Rightarrow> store_error option \<times> ('i, 'p) CDCStore" where
  "store_Close px c =
     (let c = c\<lparr>inMemoryRecords := None\<rparr> in
      case (case pebbleDB c of None \<Rightarrow> None | Some db \<Rightarrow> pebble_Close px db) of
        Some e \<Rightarrow> (Some (CloseFailed e), c)
      | None \<Rightarrow> (case os_RemoveAll px (dbFolderName c) of
          Some e \<Rightarrow> (Some (DeleteFailed e), c)
        | None \<Rightarrow> (None, c)))"

section \<open>What the store relies on\<close>

text \<open>
  What may be read back for a column value and for the items of a row: a nil or empty value
  comes back as one of the two, every other one as it is.
\<close>

definition gob_value :: "bytes option \<Rightarrow> bytes option \<Rightarrow> bool" where
  "gob_value v v' \<longleftrightarrow> (if v \<in> {None, Some []} then v' \<in> {None, Some []} else v' = v)"

definition gob_PgItems :: "PgItems \<Rightarrow> PgItems \<Rightarrow> bool" where
  "gob_PgItems i i' \<longleftrightarrow> (gomap_ok i \<longrightarrow> gomap_ok i') \<and>
     (\<forall>col. rel_option gob_value (map_of i col) (map_of i' col))"

text \<open>A row with NULL for all its empty values has the same encoding.\<close>

definition blank :: "bytes option \<Rightarrow> bytes option" where
  "blank v = (if v = Some [] then None else v)"

definition blank_items :: "PgItems \<Rightarrow> PgItems" where
  "blank_items = map (\<lambda>(c, v). (c, blank v))"

definition gob_blank :: "(PgItems, 'p) pebble_ext \<Rightarrow> bool" where
  "gob_blank px \<longleftrightarrow> (\<forall>r. gob_rec px (map_Record blank_items r) = gob_rec px r)"

text \<open>\<open>kv db\<close> is the contents of a database.\<close>

definition pebble_laws :: "(PgItems, 'p) pebble_ext \<Rightarrow> ('p \<Rightarrow> bytes \<rightharpoonup> bytes) \<Rightarrow> bool" where
  "pebble_laws px kv \<longleftrightarrow>
     (\<forall>d db. pebble_Open px d = Inr db \<longrightarrow> kv db = Map.empty) \<and>
     (\<forall>db k v db'. pebble_Set px db k v = Inr db' \<longrightarrow> kv db' = (kv db)(k \<mapsto> v)) \<and>
     (\<forall>db k v. pebble_Get px db k = PebbleFound v \<longrightarrow> kv db k = Some v) \<and>
     (\<forall>db k. pebble_Get px db k = PebbleNotFound \<longrightarrow> kv db k = None) \<and>
     (\<forall>a b x. gob_key px a = Inr x \<longrightarrow> gob_key px b = Inr x \<longrightarrow> a = b) \<and>
     (\<forall>r x. gob_rec px r = Inr x \<longrightarrow> (\<exists>r'. gob_decode px x = Inr r' \<and> rel_Record gob_PgItems r r'))"

section \<open>The abstract map\<close>

definition in_memory :: "('i, 'p) CDCStore \<Rightarrow> TableWithPkey \<Rightarrow> bool" where
  "in_memory c k \<longleftrightarrow> map_of (mem_records c) k \<noteq> None"

definition disk_abs :: "('i, 'p) pebble_ext \<Rightarrow> ('p \<Rightarrow> bytes \<rightharpoonup> bytes) \<Rightarrow> 'p option \<Rightarrow> TableWithPkey \<rightharpoonup> 'i Record" where
  "disk_abs px kv odb k = (case odb of
     None \<Rightarrow> None
   | Some db \<Rightarrow> (case gob_key px k of
       Inl _ \<Rightarrow> None
     | Inr x \<Rightarrow> (case kv db x of
         None \<Rightarrow> None
       | Some b \<Rightarrow> (case gob_decode px b of Inl _ \<Rightarrow> None | Inr r \<Rightarrow> Some r))))"

text \<open>
  The store simulates the map \<open>m\<close> of the latest records: a record in memory is the latest one, a
  record on disk is what gob makes of it.
\<close>

definition disk_sim ::
    "(PgItems, 'p) pebble_ext \<Rightarrow> ('p \<Rightarrow> bytes \<rightharpoonup> bytes) \<Rightarrow> 'p option \<Rightarrow> TableWithPkey \<Rightarrow> PgItems Record option \<Rightarrow> bool" where
  "disk_sim px kv odb k = (\<lambda>w. rel_option (rel_Record gob_PgItems) w (disk_abs px kv odb k))"

definition store_sim ::
    "(PgItems, 'p) pebble_ext \<Rightarrow> ('p \<Rightarrow> bytes \<rightharpoonup> bytes) \<Rightarrow> (PgItems, 'p) CDCStore \<Rightarrow> (TableWithPkey \<rightharpoonup> PgItems Record) \<Rightarrow> bool" where
  "store_sim px kv c m \<longleftrightarrow> (\<forall>k. case map_of (mem_records c) k of
     Some r \<Rightarrow> m k = Some r
   | None \<Rightarrow> disk_sim px kv (pebbleDB c) k (m k))"

text \<open>How the record that is read relates to the one that was written last.\<close>

definition kept :: "(PgItems, 'p) CDCStore \<Rightarrow> TableWithPkey \<Rightarrow> PgItems Record \<Rightarrow> PgItems Record \<Rightarrow> bool" where
  "kept c k w r \<longleftrightarrow> (if in_memory c k then r = w else rel_Record gob_PgItems w r)"

lemma store_simD:
  assumes "store_sim px kv c m"
  shows "map_of (mem_records c) k = None \<Longrightarrow> disk_sim px kv (pebbleDB c) k (m k)"
    and "map_of (mem_records c) k = Some r \<Longrightarrow> m k = Some r"
  using spec [OF assms [unfolded store_sim_def], of k] by simp_all

lemma new_store_sim:
  "NewCDCStore a b n d x f = Inr c \<Longrightarrow> store_sim px kv c Map.empty"
  by (auto simp: NewCDCStore_def store_sim_def disk_sim_def disk_abs_def mem_records_def split: sum.splits)

lemma encVal_Inr_iff [res_iff]: "encVal r = Inr b \<longleftrightarrow> r = Inr b"
  by (simp add: encVal_def split: sum.split)

lemma store_in_memory_sim:
  assumes "store_in_memory key rec c = Inr c'" and "store_sim px kv c m"
  shows "store_sim px kv c' (m(key \<mapsto> rec))"
proof -
  have "mem_records c' = AList.update key rec (mem_records c)" "pebbleDB c' = pebbleDB c"
    using assms(1) by (auto simp: store_in_memory_def mem_records_def split: option.splits)
  then show ?thesis using store_simD [OF assms(2)] by (simp add: store_sim_def split: option.split)
qed

lemma initPebbleDB_Inr:
  assumes "pebble_laws px kv" and "initPebbleDB px c = Inr c'"
  shows "\<exists>db. c' = c\<lparr>pebbleDB := Some db\<rparr> \<and> (pebbleDB c = Some db \<or> pebbleDB c = None \<and> kv db = Map.empty)"
  using assms by (cases c) (auto simp: initPebbleDB_def pebble_laws_def split: option.splits sum.splits)

lemma disk_sim_set:
  assumes laws: "pebble_laws px kv" and "gob_key px key = Inr x" and "gob_rec px rec = Inr v"
    and "pebble_Set px db x v = Inr db'" and "k \<noteq> key \<longrightarrow> disk_sim px kv (Some db) k w"
  shows "disk_sim px kv (Some db') k (if k = key then Some rec else w)"
proof -
  note law = laws [unfolded pebble_laws_def]
  have kv: "kv db' = (kv db)(x \<mapsto> v)" using law assms(4) by blast
  obtain rec' where dec: "gob_decode px v = Inr rec'" "rel_Record gob_PgItems rec rec'"
    using law assms(3) by blast
  have inj: "gob_key px k = Inr x \<Longrightarrow> k = key"
    using law assms(2) by blast
  show ?thesis
  proof (cases "k = key")
    case False
    with inj have "gob_key px k \<noteq> Inr x" by blast
    then have "disk_abs px kv (Some db') k = disk_abs px kv (Some db) k"
      by (auto simp: disk_abs_def kv split: sum.split)
    with False assms(5) show ?thesis by (simp add: disk_sim_def)
  qed (simp add: disk_sim_def disk_abs_def kv dec assms(2))
qed

lemma disk_abs_opened:
  "kv db = Map.empty \<Longrightarrow> disk_abs px kv (Some db) = disk_abs px kv None"
  by (auto simp: disk_abs_def fun_eq_iff split: sum.splits)

lemma store_on_disk_sim:
  assumes laws: "pebble_laws px kv" and "map_of (mem_records c) key = None"
    and "store_on_disk px key rec c = Inr c'" and sim: "store_sim px kv c m"
  shows "store_sim px kv c' (m(key \<mapsto> rec))"
proof -
  from assms(3) obtain c1 x v where
    c1: "initPebbleDB px c = Inr c1" and x: "gob_key px key = Inr x" and v: "gob_rec px rec = Inr v"
    and rest: "(case pebbleDB c1 of None \<Rightarrow> Inl (StorePanic NilDereference)
        | Some db \<Rightarrow> (case pebble_Set px db x v of Inl e \<Rightarrow> Inl (PebbleStoreFailed e)
          | Inr db' \<Rightarrow> Inr (c1\<lparr>pebbleDB := Some db'\<rparr>))) = Inr c'"
    unfolding store_on_disk_def res_iff by blast
  from initPebbleDB_Inr [OF laws c1] obtain db where
    db: "c1 = c\<lparr>pebbleDB := Some db\<rparr>" "pebbleDB c = Some db \<or> pebbleDB c = None \<and> kv db = Map.empty"
    by auto
  from rest db obtain db' where db': "pebble_Set px db x v = Inr db'" "c' = c\<lparr>pebbleDB := Some db'\<rparr>"
    by (auto split: sum.splits)
  have "disk_abs px kv (Some db) = disk_abs px kv (pebbleDB c)"
    using db(2) disk_abs_opened [of kv db px] by auto
  then have before: "disk_sim px kv (Some db) k = disk_sim px kv (pebbleDB c) k" for k
    by (simp add: disk_sim_def fun_eq_iff)
  have mem: "mem_records c' = mem_records c" using db'(2) by (simp add: mem_records_def)
  have "disk_sim px kv (pebbleDB c') k ((m(key \<mapsto> rec)) k)" if "map_of (mem_records c) k = None" for k
  proof -
    have "disk_sim px kv (Some db) k (m k)" using store_simD(1) [OF sim that] before by simp
    then show ?thesis using disk_sim_set [OF laws x v db'(1), of k "m k"] db'(2) by (simp add: fun_upd_def)
  qed
  then show ?thesis using sim assms(2) mem
    by (auto simp: store_sim_def split: option.splits)
qed

lemma diskSpill_fields:
  assumes "diskSpillThresholdsExceeded heap c = (b, c')"
  shows "inMemoryRecords c' = inMemoryRecords c" and "pebbleDB c' = pebbleDB c"
    and "numRecords c' = numRecords c"
  using assms by (auto simp: diskSpillThresholdsExceeded_def split: if_splits)

lemma diskSpill_mem: "diskSpillThresholdsExceeded heap c = (b, c') \<Longrightarrow> mem_records c' = mem_records c"
  by (simp add: mem_records_def diskSpill_fields)

lemma diskSpill_sim:
  "diskSpillThresholdsExceeded heap c = (b, c') \<Longrightarrow> store_sim px kv c' = store_sim px kv c"
  by (simp add: store_sim_def fun_eq_iff diskSpill_mem diskSpill_fields split: option.split)

lemma store_sim_numRecords [simp]: "store_sim px kv (c\<lparr>numRecords := n\<rparr>) = store_sim px kv c"
  by (simp add: store_sim_def fun_eq_iff mem_records_def split: option.split)

lemma store_Set_sim:
  assumes laws: "pebble_laws px kv" and sim: "store_sim px kv c m" and "store_Set px heap c key rec = Inr c'"
  shows "store_sim px kv c' (if TableName key \<noteq> [] then m(key \<mapsto> rec) else m)"
proof -
  obtain b d where d: "diskSpillThresholdsExceeded heap c = (b, d)" by fastforce
  from assms(3) obtain c1 where
    c1: "(if TableName key \<noteq> [] then
            (if map_of (mem_records c) key \<noteq> None then store_in_memory key rec c
             else if \<not> b then store_in_memory key rec d else store_on_disk px key rec d)
          else Inr c) = Inr c1"
    and c': "c' = c1\<lparr>numRecords := numRecords c1 + 1\<rparr>"
    unfolding store_Set_def res_iff d Let_def case_prod_conv by blast
  have c'_sim: "store_sim px kv c' = store_sim px kv c1" by (simp only: c' store_sim_numRecords)
  have sim_d: "store_sim px kv d m" using sim diskSpill_sim [OF d] by simp
  consider (unkeyed) "TableName key = []"
    | (mem) "TableName key \<noteq> []" "map_of (mem_records c) key \<noteq> None"
    | (fresh_mem) "TableName key \<noteq> []" "map_of (mem_records c) key = None" "\<not> b"
    | (disk) "TableName key \<noteq> []" "map_of (mem_records c) key = None" "b" by blast
  then show ?thesis
  proof cases
    case unkeyed
    with c1 c'_sim sim show ?thesis by simp
  next
    case mem
    with c1 have "store_in_memory key rec c = Inr c1" by simp
    from store_in_memory_sim [OF this sim] mem c'_sim show ?thesis by simp
  next
    case fresh_mem
    with c1 have "store_in_memory key rec d = Inr c1" by simp
    from store_in_memory_sim [OF this sim_d] fresh_mem c'_sim show ?thesis by simp
  next
    case disk
    with c1 have "store_on_disk px key rec d = Inr c1" by simp
    from store_on_disk_sim [OF laws _ this sim_d] disk c'_sim diskSpill_mem [OF d] show ?thesis by simp
  qed
qed

lemma store_Get_sim:
  assumes laws: "pebble_laws px kv" and sim: "store_sim px kv c m" and "store_Get px c key = Inr r"
  shows "rel_option (kept c key) (m key) r"
proof (cases "map_of (mem_records c) key")
  case None
  have kept: "kept c key = rel_Record gob_PgItems" using None by (simp add: kept_def in_memory_def fun_eq_iff)
  have disk: "rel_option (rel_Record gob_PgItems) (m key) (disk_abs px kv (pebbleDB c) key)"
    using store_simD(1) [OF sim None] by (simp add: disk_sim_def)
  have found: "\<And>db k v. pebble_Get px db k = PebbleFound v \<Longrightarrow> kv db k = Some v"
    and missing: "\<And>db k. pebble_Get px db k = PebbleNotFound \<Longrightarrow> kv db k = None"
    using laws unfolding pebble_laws_def by blast+
  show ?thesis
  proof (cases "pebbleDB c")
    case (Some db)
    with None assms(3) obtain x where x: "gob_key px key = Inr x"
      and got: "(case pebble_Get px db x of PebbleNotFound \<Rightarrow> Inr None
        | PebbleError e \<Rightarrow> Inl (RetrieveFailed key e)
        | PebbleFound b \<Rightarrow> (case gob_decode px b of Inl e \<Rightarrow> Inl (DecodeFailed e) | Inr r \<Rightarrow> Inr (Some r)))
        = Inr r"
      by (simp add: store_Get_def res_iff) blast
    have "disk_abs px kv (pebbleDB c) key = (case kv db x of None \<Rightarrow> None
        | Some b \<Rightarrow> (case gob_decode px b of Inl _ \<Rightarrow> None | Inr r \<Rightarrow> Some r))"
      using Some x by (simp add: disk_abs_def)
    also have "\<dots> = r"
      using got found [of db x] missing [of db x]
      by (cases "pebble_Get px db x") (simp_all split: sum.splits)
    finally show ?thesis using disk kept by simp
  next
    case empty: None
    with None have "store_Get px c key = Inr None" by (simp add: store_Get_def)
    with assms(3) have "r = None" by simp
    with empty disk kept show ?thesis by (simp add: disk_abs_def)
  qed
next
  case (Some a)
  then have "store_Get px c key = Inr (Some a)" by (simp add: store_Get_def)
  with assms(3) have "r = Some a" by simp
  moreover have "m key = Some a" using store_simD(2) [OF sim Some] .
  ultimately show ?thesis using Some by (simp add: kept_def in_memory_def)
qed

section \<open>The contract of a cache of latest records\<close>

text \<open>
  A cache that may forget something of a value: \<open>sim s m\<close> relates it to the map of all that was
  put, \<open>seen s k v v'\<close> says what may be got for a value that was put.
\<close>

locale latest_cache =
  fixes put :: "'h \<Rightarrow> 's \<Rightarrow> 'k \<Rightarrow> 'v \<Rightarrow> ('e, 's) res"
    and get :: "'s \<Rightarrow> 'k \<Rightarrow> ('e, 'v option) res"
    and sim :: "'s \<Rightarrow> ('k \<rightharpoonup> 'v) \<Rightarrow> bool"
    and seen :: "'s \<Rightarrow> 'k \<Rightarrow> 'v \<Rightarrow> 'v \<Rightarrow> bool"
    and keyed :: "'k \<Rightarrow> bool"
  assumes put_sim: "sim s m \<Longrightarrow> put h s k v = Inr s' \<Longrightarrow> sim s' (if keyed k then m(k \<mapsto> v) else m)"
    and get_sim: "sim s m \<Longrightarrow> get s k = Inr r \<Longrightarrow> rel_option (seen s k) (m k) r"
begin

lemma get_known:
  assumes "sim s m" and "m k = Some v" and "get s k = Inr r"
  shows "\<exists>v'. r = Some v' \<and> seen s k v v'"
  using get_sim [OF assms(1,3)] assms(2) by (cases r) simp_all

lemma get_put_other:
  assumes "sim s m" and "put h s k v = Inr s'" and "k' \<noteq> k \<or> \<not> keyed k" and "get s' k' = Inr r"
  shows "rel_option (seen s' k') (m k') r"
  using get_sim [OF put_sim [OF assms(1,2)] assms(4)] assms(3)
  by (auto split: if_splits)

lemma puts_sim:
  assumes "sim s m" and "fold_res (\<lambda>(h, k, v) s. put h s k v) ops s = Inr s'"
  shows "sim s' (foldl (\<lambda>m (h, k, v). if keyed k then m(k \<mapsto> v) else m) m ops)"
  using assms
proof (induction ops arbitrary: s m)
  case (Cons a ops)
  obtain h k v where a: "a = (h, k, v)" by (cases a) auto
  from Cons.prems(2) a obtain t where t: "put h s k v = Inr t"
    "fold_res (\<lambda>(h, k, v) s. put h s k v) ops t = Inr s'"
    by (auto simp: res_iff)
  show ?case using Cons.IH [OF put_sim [OF Cons.prems(1) t(1)] t(2)] by (simp add: a)
qed simp

end

interpretation cdcs: latest_cache "store_Set px" "store_Get px" "\<lambda>c m. pebble_laws px kv \<and> store_sim px kv c m"
    kept "\<lambda>k. TableName k \<noteq> []" for px :: "(PgItems, 'p) pebble_ext" and kv
proof
  show "pebble_laws px kv \<and> store_sim px kv s' (if TableName k \<noteq> [] then m(k \<mapsto> v) else m)"
    if "pebble_laws px kv \<and> store_sim px kv s m" "store_Set px h s k v = Inr s'" for s m h k v s'
    using that store_Set_sim [of px kv s m h k v s'] by simp
  show "rel_option (kept s k) (m k) r"
    if "pebble_laws px kv \<and> store_sim px kv s m" "store_Get px s k = Inr r" for s m k r
    using that store_Get_sim [of px kv s m k r] by simp
qed

text \<open>What is kept of the columns of a row.\<close>

definition kept_value :: "(PgItems, 'p) CDCStore \<Rightarrow> TableWithPkey \<Rightarrow> bytes option \<Rightarrow> bytes option \<Rightarrow> bool" where
  "kept_value c k v v' \<longleftrightarrow> (if in_memory c k then v' = v else gob_value v v')"

lemma gob_value_refl: "gob_value v v"
  by (simp add: gob_value_def)

lemma gob_PgItems_refl: "gob_PgItems i i"
  by (simp add: gob_PgItems_def option.rel_refl gob_value_refl)

lemma kept_items:
  assumes "kept c k w r"
  shows "rel_option (kept_value c k) (map_of (GetItems PgItems_ops w) col) (map_of (GetItems PgItems_ops r) col)"
    and "gomap_ok (GetItems PgItems_ops w) \<Longrightarrow> gomap_ok (GetItems PgItems_ops r)"
proof -
  have "rel_Record gob_PgItems w r \<Longrightarrow> gob_PgItems (GetItems PgItems_ops w) (GetItems PgItems_ops r)"
    by (cases w; cases r) (simp_all add: gob_PgItems_refl)
  with assms show "gomap_ok (GetItems PgItems_ops w) \<Longrightarrow> gomap_ok (GetItems PgItems_ops r)"
    and "rel_option (kept_value c k) (map_of (GetItems PgItems_ops w) col) (map_of (GetItems PgItems_ops r) col)"
    by (auto simp: kept_def kept_value_def [abs_def] gob_PgItems_def option.rel_refl split: if_splits)
qed

section \<open>Properties\<close>


text \<open>
  An instance of the external calls. A database is its contents. A record of an inserted row is
  the list of its fields, each preceded by its length in unary notation; other records are
  refused. As in gob, a value of length 0 is decoded as the nil slice.
\<close>

definition tiny_key :: "TableWithPkey \<Rightarrow> (string, bytes) res" where
  "tiny_key k = Inr (FormatUint (length (TableName k)) @ '':'' @ TableName k @ PkeyColVal k)"

definition tiny_field :: "bytes \<Rightarrow> bytes" where
  "tiny_field s = replicate (length s) (CHR ''1'') @ CHR '':'' # s"

function tiny_fields :: "bytes \<Rightarrow> bytes list" where
  "tiny_fields b = (if b = [] then [] else
     (let n = length (takeWhile (\<lambda>c. c = CHR ''1'') b); rest = drop (Suc n) b in
      take n rest # tiny_fields (drop n rest)))"
  by pat_completeness auto
termination by (relation "measure length") auto

declare tiny_fields.simps [simp del]

definition tiny_int :: "int \<Rightarrow> bytes" where
  "tiny_int i = (if i < 0 then CHR ''-'' else CHR ''+'') # replicate (nat \<bar>i\<bar>) (CHR ''1'')"

definition tiny_to_int :: "bytes \<Rightarrow> int" where
  "tiny_to_int b = (if take 1 b = ''-'' then - int (length b - 1) else int (length b - 1))"

definition tiny_items :: "PgItems \<Rightarrow> bytes list" where
  "tiny_items i = concat (map (\<lambda>(c, v). [c, case v of None \<Rightarrow> [] | Some b \<Rightarrow> b]) i)"

fun tiny_to_items :: "bytes list \<Rightarrow> PgItems" where
  "tiny_to_items (c # v # r) = (c, if v = [] then None else Some v) # tiny_to_items r"
| "tiny_to_items _ = []"

definition tiny_rec :: "PgItems Record \<Rightarrow> (string, bytes) res" where
  "tiny_rec r = (case r of
     InsertRecord i s d c b \<Rightarrow> Inr (concat (map tiny_field ([s, d, tiny_int c, tiny_int (CheckpointID b),
       tiny_int (CommitTimeNano b), tiny_int (int (TransactionID b))] @ tiny_items i)))
   | _ \<Rightarrow> Inl ''unsupported'')"

definition tiny_decode :: "bytes \<Rightarrow> (string, PgItems Record) res" where
  "tiny_decode b = (case tiny_fields b of
     s # d # c # k # t # x # i \<Rightarrow> Inr (InsertRecord (tiny_to_items i) s d (tiny_to_int c)
       \<lparr>CheckpointID = tiny_to_int k, CommitTimeNano = tiny_to_int t, TransactionID = nat (tiny_to_int x)\<rparr>)
   | _ \<Rightarrow> Inl ''malformed'')"

definition tiny_pebble :: "(PgItems, (bytes, bytes) gomap) pebble_ext" where
  "tiny_pebble = \<lparr>pebble_Open = (\<lambda>_. Inr []),
     pebble_Set = (\<lambda>db k v. Inr (AList.update k v db)),
     pebble_Get = (\<lambda>db k. case map_of db k of None \<Rightarrow> PebbleNotFound | Some v \<Rightarrow> PebbleFound v),
     pebble_Close = (\<lambda>_. None), gob_key = tiny_key, gob_rec = tiny_rec,
     gob_decode = tiny_decode, os_RemoveAll = (\<lambda>_. None)\<rparr>"

lemma tiny_key_inj: "tiny_key a = tiny_key b \<Longrightarrow> a = b"
proof -
  assume "tiny_key a = tiny_key b"
  then have eq: "FormatUint (length (TableName a)) @ '':'' @ TableName a @ PkeyColVal a =
      FormatUint (length (TableName b)) @ '':'' @ TableName b @ PkeyColVal b"
    by (simp add: tiny_key_def)
  have digits: "CHR '':'' \<notin> set (FormatUint n)" for n
    using FormatUint_digits [of n] by (auto simp: is_digit_def)
  have split: "takeWhile (\<lambda>c. c \<noteq> CHR '':'') (FormatUint n @ '':'' @ s) = FormatUint n" for n s
    using digits [of n] by (subst takeWhile_append2) auto
  have "FormatUint (length (TableName a)) = FormatUint (length (TableName b))"
    using arg_cong [OF eq, of "takeWhile (\<lambda>c. c \<noteq> CHR '':'')"] by (simp only: split)
  then have "length (TableName a) = length (TableName b)" by (rule FormatUint_inj)
  with eq show "a = b" by (cases a, cases b) simp
qed

lemma tiny_fields_field: "tiny_fields (tiny_field s @ b) = s # tiny_fields b"
proof -
  let ?b = "replicate (length s) (CHR ''1'') @ CHR '':'' # s @ b"
  have n: "takeWhile (\<lambda>c. c = CHR ''1'') ?b = replicate (length s) (CHR ''1'')"
    by (subst takeWhile_append2) simp_all
  show ?thesis by (subst tiny_fields.simps) (simp add: tiny_field_def n Let_def)
qed

lemma tiny_fields_concat: "tiny_fields (concat (map tiny_field xs)) = xs"
proof (induction xs)
  case Nil
  show ?case by (subst tiny_fields.simps) simp
qed (simp add: tiny_fields_field)

lemma tiny_int_inv: "tiny_to_int (tiny_int i) = i"
  by (simp add: tiny_int_def tiny_to_int_def)

lemma tiny_items_inv: "tiny_to_items (tiny_items i) = map (\<lambda>(c, v). (c, blank v)) i"
  by (induction i) (auto simp: tiny_items_def blank_def split: option.split)

lemma tiny_items_gob: "gob_PgItems i (tiny_to_items (tiny_items i))"
proof -
  have "rel_option gob_value v (map_option blank v)" for v
    by (cases v) (simp_all add: gob_value_def blank_def)
  moreover have "map fst (tiny_to_items (tiny_items i)) = map fst i"
    by (simp add: tiny_items_inv comp_def case_prod_unfold)
  moreover have "map_of (tiny_to_items (tiny_items i)) = map_option blank \<circ> map_of i"
    by (simp add: tiny_items_inv map_of_map)
  ultimately show ?thesis by (simp add: gob_PgItems_def)
qed

lemma tiny_decode_insert:
  "tiny_rec (InsertRecord i s d c b) = Inr x \<Longrightarrow> tiny_decode x = Inr (InsertRecord (tiny_to_items (tiny_items i)) s d c b)"
  unfolding tiny_rec_def tiny_decode_def Record.case sum.inject
  by (drule sym) (simp only: tiny_fields_concat append.simps list.case tiny_int_inv nat_int, simp)

lemma tiny_rec_gob: "tiny_rec r = Inr x \<Longrightarrow> \<exists>r'. tiny_decode x = Inr r' \<and> rel_Record gob_PgItems r r'"
proof (cases r)
  case (InsertRecord i s d c b)
  moreover assume "tiny_rec r = Inr x"
  ultimately have "tiny_decode x = Inr (InsertRecord (tiny_to_items (tiny_items i)) s d c b)"
    by (simp only: tiny_decode_insert)
  moreover have "rel_Record gob_PgItems r (InsertRecord (tiny_to_items (tiny_items i)) s d c b)"
    by (simp add: InsertRecord tiny_items_gob)
  ultimately show ?thesis by blast
qed (simp_all add: tiny_rec_def)

lemma tiny_laws: "pebble_laws tiny_pebble map_of"
  unfolding pebble_laws_def
proof (intro conjI)
  show "\<forall>a b x. gob_key tiny_pebble a = Inr x \<longrightarrow> gob_key tiny_pebble b = Inr x \<longrightarrow> a = b"
    using tiny_key_inj by (simp add: tiny_pebble_def)
  show "\<forall>r x. gob_rec tiny_pebble r = Inr x \<longrightarrow> (\<exists>r'. gob_decode tiny_pebble x = Inr r' \<and> rel_Record gob_PgItems r r')"
    using tiny_rec_gob unfolding tiny_pebble_def pebble_ext.simps by blast
qed (auto simp: tiny_pebble_def split: option.splits)

definition store_sample :: "(PgItems, (bytes, bytes) gomap) CDCStore" where
  "store_sample = \<lparr>inMemoryRecords = Some [], pebbleDB = None, storeFlowJobName = ''f'', dbFolderName = ''d/f_s'',
     thresholdReason = [], memThresholdBytes = 0, numRecordsSwitchThreshold = 1, numRecords = 0\<rparr>"

definition key_sample :: "string \<Rightarrow> TableWithPkey" where
  "key_sample k = \<lparr>TableName = ''t'', PkeyColVal = k\<rparr>"

definition rec_sample :: "string \<Rightarrow> bytes option \<Rightarrow> PgItems Record" where
  "rec_sample k v = InsertRecord [(''id'', Some k), (''note'', v)] ''public.t'' ''t'' 0 zero_BaseRecord"

definition ops_sample :: "(64 word \<times> TableWithPkey \<times> PgItems Record) list" where
  "ops_sample = [(0, key_sample ''1'', rec_sample ''1'' (Some [])), (0, key_sample ''2'', rec_sample ''2'' (Some ''a'')),
     (0, key_sample ''2'', rec_sample ''2'' (Some []))]"


text \<open>
  C0: a record that is written to disk leaves the store in the same state as the record with NULL for all
  its empty column values. So no later read can tell which of the two was written, and
  the backfill of a later update or delete confuses empty values with NULL.
\<close>

theorem spilled_empty_like_null:
  assumes "gob_blank px" and "TableName key \<noteq> []"
    and "store_Set px heap c key rec = Inr c'" and "\<not> in_memory c' key"
  shows "store_Set px heap c key (map_Record blank_items rec) = Inr c'"
proof -
  obtain b d where d: "diskSpillThresholdsExceeded heap c = (b, d)" by fastforce
  obtain e where e: "(if map_of (mem_records c) key \<noteq> None then store_in_memory key rec c
      else if \<not> b then store_in_memory key rec d else store_on_disk px key rec d) = Inr e"
    and c': "c' = e\<lparr>numRecords := numRecords e + 1\<rparr>"
    using assms(2,3) unfolding store_Set_def d Let_def case_prod_conv res_iff by auto
  have "store_in_memory key rec x = Inr e \<Longrightarrow> in_memory c' key" for x
    by (auto simp: c' store_in_memory_def in_memory_def mem_records_def split: option.splits)
  with e assms(4) have disk: "map_of (mem_records c) key = None \<and> b"
    by (auto split: if_splits)
  have "store_on_disk px key (map_Record blank_items rec) d = store_on_disk px key rec d"
    using assms(1) by (simp add: store_on_disk_def gob_blank_def)
  with disk assms(2,3) show ?thesis by (simp add: store_Set_def d)
qed

lemma tiny_blank: "gob_blank tiny_pebble"
proof -
  have "tiny_items (blank_items i) = tiny_items i" for i
    by (induction i) (auto simp: tiny_items_def blank_items_def blank_def split: option.split)
  then show ?thesis
    by (simp add: gob_blank_def tiny_pebble_def tiny_rec_def Record.map_sel split: Record.split)
qed

theorem spilled_empty_like_null_witness:
  "\<exists>c'. store_Set tiny_pebble 0 (store_sample\<lparr>numRecordsSwitchThreshold := 0\<rparr>) (key_sample ''1'') (rec_sample ''1'' (Some [])) = Inr c' \<and>
     store_Set tiny_pebble 0 (store_sample\<lparr>numRecordsSwitchThreshold := 0\<rparr>) (key_sample ''1'') (rec_sample ''1'' None) = Inr c'"
proof -
  let ?s = "store_sample\<lparr>numRecordsSwitchThreshold := 0\<rparr>"
  have "case store_Set tiny_pebble 0 ?s (key_sample ''1'') (rec_sample ''1'' (Some [])) of
      Inr c' \<Rightarrow> \<not> in_memory c' (key_sample ''1'') | Inl e \<Rightarrow> False"
    by code_simp
  then obtain c' where c': "store_Set tiny_pebble 0 ?s (key_sample ''1'') (rec_sample ''1'' (Some [])) = Inr c'"
    "\<not> in_memory c' (key_sample ''1'')"
    by (auto split: sum.splits)
  have "map_Record blank_items (rec_sample ''1'' (Some [])) = rec_sample ''1'' None"
    by (simp add: rec_sample_def blank_items_def blank_def)
  with c' spilled_empty_like_null [OF tiny_blank _ c'] show ?thesis by (auto simp: key_sample_def)
qed

end
