(* ===== verification/PgPull.thy ===== *)
theory PgPull
  imports PgProcess CdcStore
begin

text \<open>
  \<^verbatim>\<open>PullCdcRecords\<close> of \<^verbatim>\<open>flow/connectors/postgres/cdc.go\<close>: the loop that reads the replication
  connection and fills the stream of a batch. One iteration is a function of the state and of
  what the outside gives in it: the clock (read once before and once after the wait for a
  message), the received message, the answers of the databases, what the sync side stores in the
  shared offset meanwhile, the schedule of a wait on a full channel. The offset is an
  atomic that both sides store to; the loop loads it at three moments of an iteration, and
  \<open>inStoreBefore\<close>, \<open>inStoreStandby\<close> and \<open>inStoreAfter\<close> are what the sync side has stored since the
  moment before. Metrics and logging are left out, except the message that is written to the
  log of the mirror. Times and durations are unbounded integers.
\<close>

section \<open>State\<close>

datatype pull_effect = SentStandby int | SetLastOffset int | LogFlowInfo int int

record ('i, 'p) pull_state =
  psSource :: PostgresCDCSource
  psRecords :: "'i CDCStream"
  cdcRecordsStorage :: "('i, 'p) CDCStore option"
  totalRecords :: int
  totalFetchedBytes :: int
  clientXLogPos :: lsn
  consumedOffset :: int
  waitingForCommit :: bool
  nextRecordDeadline :: int
  pkmRequiresResponse :: bool
  largeTxnLastLogged :: "int option"
  lastEmptyBatchPkmSentTime :: int
  warnedReplIdentTables :: "string set"
  psEffects :: "pull_effect list"

record pull_req =
  MaxBatchSize :: "32 word"
  IdleTimeout :: int
  LastOffsetID :: int
  reqTableNameSchemaMapping :: "string \<rightharpoonup> TableSchema"
  pkmEmptyBatchThrottleThresholdSeconds :: int

datatype copy_payload =
    PrimaryKeepalive "(string, lsn \<times> bool) res"
  | XLogData "(string, lsn \<times> bytes) res"
  | UnknownByteID
  | EmptyData

datatype received =
    CtxCancelled string
  | RecvTimeout
  | RecvError bool string
  | ErrorResponse string
  | CopyData nat copy_payload
  | OtherBackendMessage

record pull_input =
  inNow :: int
  inNowAfter :: int
  inStoreBefore :: "int option"
  inStoreStandby :: "int option"
  inStoreAfter :: "int option"
  inStandbyErr :: "string option"
  inTimeoutStandbyErr :: "string option"
  inSetOffsetErr :: "string option"
  inMessageOffsetErr :: "string option"
  inReceived :: received
  inEnv :: pg_env
  inHeap :: "64 word"
  inWait :: "wait_event list"

datatype pull_error =
    StandbyFailed string string
  | StorageError store_error
  | Preempted string
  | ReceiveFailed bool string
  | WalError string
  | ParseKeepaliveFailed string
  | ParseXLogFailed string
  | LogicalMessageError pg_error
  | SetOffsetFailed string
  | PkeyError pkey_error
  | AddRecordCancelled

text \<open>
  How an iteration can leave the loop: by returning (\<open>None\<close>: nil, without an error), by a
  panic, or not at all because it waits on a full channel.
\<close>

datatype ('i, 'p) pull_exit =
    Returned "pull_error option" "('i, 'p) pull_state"
  | Panicked go_panic
  | Blocked

text \<open>The fixed parameters: item operations, processor, Pebble, SHA-256, the request.\<close>

record ('i, 'p) pull_ctx =
  cOps :: "'i Items"
  cProcessor :: "'i replProcessor"
  cPebble :: "('i, 'p) pebble_ext"
  cSha256 :: "bytes \<Rightarrow> bytes"
  cReq :: pull_req

type_synonym ('i, 'p) pull_step = "(('i, 'p) pull_exit, ('i, 'p) pull_state) res"

definition fail :: "pull_error \<Rightarrow> ('i, 'p) pull_state \<Rightarrow> ('i, 'p) pull_step" where
  "fail e st = Inl (Returned (Some e) st)"

section \<open>Standby messages and the consumed offset\<close>

definition clientSidePingPeriod :: "int \<Rightarrow> int" where
  "clientSidePingPeriod walSenderTimeout = (3 * walSenderTimeout) div 4"

definition messageWaitPeriod :: "int \<Rightarrow> int option \<Rightarrow> int" where
  "messageWaitPeriod idleTimeout walSenderTimeout = (case walSenderTimeout of
     Some d \<Rightarrow> if d > 0 then min idleTimeout (clientSidePingPeriod d) else idleTimeout
   | None \<Rightarrow> idleTimeout)"

definition receiveDeadline :: "int \<Rightarrow> int \<Rightarrow> int \<Rightarrow> int" where
  "receiveDeadline now waitPeriod deadline = (if now + waitPeriod > deadline then deadline else now + waitPeriod)"

definition sendStandbyAfterReplLock :: "string option \<Rightarrow> string \<Rightarrow> ('i, 'p) pull_state \<Rightarrow> ('i, 'p) pull_step" where
  "sendStandbyAfterReplLock err updateType st = (case err of
     Some e \<Rightarrow> fail (StandbyFailed updateType e) st
   | None \<Rightarrow> Inr (st\<lparr>psEffects := psEffects st @ [SentStandby (consumedOffset st)]\<rparr>))"

definition updateConsumedOffset :: "string option \<Rightarrow> ('i, 'p) pull_state \<Rightarrow> ('i, 'p) pull_step" where
  "updateConsumedOffset err st = (case err of
     Some e \<Rightarrow> fail (SetOffsetFailed e) st
   | None \<Rightarrow> Inr (st\<lparr>consumedOffset := sint (clientXLogPos st),
                     psEffects := psEffects st @ [SetLastOffset (sint (clientXLogPos st))]\<rparr>))"

text \<open>A store of the sync side to the offset.\<close>

definition sync_store :: "int option \<Rightarrow> ('i, 'p) pull_state \<Rightarrow> ('i, 'p) pull_state" where
  "sync_store v st = (case v of None \<Rightarrow> st | Some off \<Rightarrow> st\<lparr>consumedOffset := off\<rparr>)"

section \<open>Adding a record\<close>

definition store_record ::
    "('i, 'p) pull_ctx \<Rightarrow> pull_input \<Rightarrow> TableWithPkey \<Rightarrow> 'i Record \<Rightarrow> ('i, 'p) pull_state \<Rightarrow> ('i, 'p) pull_step" where
  "store_record c inp key rec st = (case cdcRecordsStorage st of
     None \<Rightarrow> Inr st
   | Some s \<Rightarrow> (case store_Set (cPebble c) (inHeap inp) s key rec of
       Inl (StorePanic p) \<Rightarrow> Inl (Panicked p)
     | Inl e \<Rightarrow> fail (StorageError e) st
     | Inr s \<Rightarrow> Inr (st\<lparr>cdcRecordsStorage := Some s\<rparr>)))"

definition send_record :: "pull_input \<Rightarrow> 'i Record \<Rightarrow> ('i, 'p) pull_state \<Rightarrow> ('i, 'p) pull_step" where
  "send_record inp rec st = (case AddRecord (inNowAfter inp) (inWait inp) (psRecords st) rec of
     Added r \<Rightarrow> Inr (st\<lparr>psRecords := r\<rparr>)
   | AddCancelled r \<Rightarrow> fail AddRecordCancelled (st\<lparr>psRecords := r\<rparr>)
   | StillWaiting r \<Rightarrow> Inl Blocked
   | AddPanic p \<Rightarrow> Inl (Panicked p))"

definition count_record :: "('i, 'p) pull_ctx \<Rightarrow> pull_input \<Rightarrow> ('i, 'p) pull_state \<Rightarrow> ('i, 'p) pull_step" where
  "count_record c inp st =
     (let st = st\<lparr>totalRecords := totalRecords st + 1\<rparr> in
      if totalRecords st = 1 then
        (case SignalAsNotEmpty (psRecords st) of
           Inl p \<Rightarrow> Inl (Panicked p)
         | Inr r \<Rightarrow> Inr (st\<lparr>psRecords := r, nextRecordDeadline := inNowAfter inp + IdleTimeout (cReq c)\<rparr>))
      else Inr st)"

definition addRecordWithKey ::
    "('i, 'p) pull_ctx \<Rightarrow> pull_input \<Rightarrow> TableWithPkey \<Rightarrow> 'i Record \<Rightarrow> ('i, 'p) pull_state \<Rightarrow> ('i, 'p) pull_step" where
  "addRecordWithKey c inp key rec st =
     bind_res (store_record c inp key rec st) (\<lambda>st.
     bind_res (send_record inp rec st) (\<lambda>st.
       count_record c inp st))"

section \<open>The kinds of records\<close>

text \<open>The replica identity of the destination table; a table without a schema is a nil pointer.\<close>

definition isFullReplica :: "('i, 'p) pull_ctx \<Rightarrow> 'i Record \<Rightarrow> (('i, 'p) pull_exit, bool) res" where
  "isFullReplica c rec = (case reqTableNameSchemaMapping (cReq c) (GetDestinationTableName rec) of
     None \<Rightarrow> Inl (Panicked NilDereference)
   | Some s \<Rightarrow> Inr (IsReplicaIdentityFull s))"

definition record_key ::
    "('i, 'p) pull_ctx \<Rightarrow> 'i Record \<Rightarrow> ('i, 'p) pull_state \<Rightarrow> (('i, 'p) pull_exit, TableWithPkey) res" where
  "record_key c rec st = (case RecToTablePKey (cSha256 c) (cOps c) (reqTableNameSchemaMapping (cReq c)) rec of
     Inl e \<Rightarrow> Inl (Returned (Some (PkeyError e)) st)
   | Inr k \<Rightarrow> Inr k)"

definition latest_record ::
    "('i, 'p) pull_ctx \<Rightarrow> TableWithPkey \<Rightarrow> ('i, 'p) pull_state \<Rightarrow> (('i, 'p) pull_exit, 'i Record option) res" where
  "latest_record c key st = (case cdcRecordsStorage st of
     None \<Rightarrow> Inr None
   | Some s \<Rightarrow> (case store_Get (cPebble c) s key of
       Inl e \<Rightarrow> Inl (Returned (Some (StorageError e)) st)
     | Inr r \<Rightarrow> Inr r))"

text \<open>An update takes the values of its unchanged TOAST columns from the latest record of its key.\<close>

fun backfill_update :: "'i Items \<Rightarrow> 'i Record option \<Rightarrow> 'i Record \<Rightarrow> 'i Record" where
  "backfill_update ops (Some latest) (UpdateRecord oi ni toast s d b) =
     (let (ni, updatedCols) = UpdateIfNotExists ops ni (GetItems ops latest) in
      UpdateRecord oi ni (toast - set updatedCols) s d b)"
| "backfill_update ops _ rec = rec"

text \<open>
  A delete takes the items of the latest record of its key. Unless that is an update, the
  record is marked so that its items are not used to update a row.
\<close>

definition not_backfilled_delete :: "string set" where
  "not_backfilled_delete = {''_peerdb_not_backfilled_delete''}"

fun backfill_delete :: "'i Items \<Rightarrow> 'i Record option \<Rightarrow> 'i Record \<Rightarrow> 'i Record" where
  "backfill_delete ops (Some (UpdateRecord oi ni toast _ _ _)) (DeleteRecord i u s d b) = DeleteRecord ni toast s d b"
| "backfill_delete ops (Some latest) (DeleteRecord i u s d b) =
     DeleteRecord (GetItems ops latest) not_backfilled_delete s d b"
| "backfill_delete ops None (DeleteRecord i u s d b) = DeleteRecord i not_backfilled_delete s d b"
| "backfill_delete ops _ rec = rec"

definition handle_update :: "('i, 'p) pull_ctx \<Rightarrow> pull_input \<Rightarrow> 'i Record \<Rightarrow> ('i, 'p) pull_state \<Rightarrow> ('i, 'p) pull_step" where
  "handle_update c inp rec st =
     bind_res (isFullReplica c rec) (\<lambda>full.
       if full then addRecordWithKey c inp zero_TableWithPkey rec st
       else
         bind_res (record_key c rec st) (\<lambda>key.
         bind_res (latest_record c key st) (\<lambda>latest.
           addRecordWithKey c inp key (backfill_update (cOps c) latest rec) st)))"

definition handle_insert :: "('i, 'p) pull_ctx \<Rightarrow> pull_input \<Rightarrow> 'i Record \<Rightarrow> ('i, 'p) pull_state \<Rightarrow> ('i, 'p) pull_step" where
  "handle_insert c inp rec st =
     bind_res (isFullReplica c rec) (\<lambda>full.
       if full then addRecordWithKey c inp zero_TableWithPkey rec st
       else bind_res (record_key c rec st) (\<lambda>key. addRecordWithKey c inp key rec st))"

definition handle_delete :: "('i, 'p) pull_ctx \<Rightarrow> pull_input \<Rightarrow> 'i Record \<Rightarrow> ('i, 'p) pull_state \<Rightarrow> ('i, 'p) pull_step" where
  "handle_delete c inp rec st =
     bind_res (isFullReplica c rec) (\<lambda>full.
       if full then addRecordWithKey c inp zero_TableWithPkey rec st
       else
         bind_res (record_key c rec st) (\<lambda>key.
         bind_res (latest_record c key st) (\<lambda>latest.
           addRecordWithKey c inp zero_TableWithPkey (backfill_delete (cOps c) latest rec) st)))"

definition handle_relation :: "'i Record \<Rightarrow> ('i, 'p) pull_state \<Rightarrow> ('i, 'p) pull_step" where
  "handle_relation rec st =
     (if AddedColumns (SchemaDelta rec) \<noteq> [] then
        Inr (st\<lparr>psRecords := AddSchemaDelta (psRecords st) (SchemaDelta rec)\<rparr>)
      else Inr st)"

definition handle_message :: "pull_input \<Rightarrow> 'i Record \<Rightarrow> ('i, 'p) pull_state \<Rightarrow> ('i, 'p) pull_step" where
  "handle_message inp rec st =
     (if totalRecords st = 0 then
        (if sint (clientXLogPos st) > consumedOffset st then updateConsumedOffset (inMessageOffsetErr inp) st else Inr st)
      else send_record inp rec st)"

definition handle_record :: "('i, 'p) pull_ctx \<Rightarrow> pull_input \<Rightarrow> 'i Record \<Rightarrow> ('i, 'p) pull_state \<Rightarrow> ('i, 'p) pull_step" where
  "handle_record c inp rec st = (case rec of
     UpdateRecord _ _ _ _ _ _ \<Rightarrow> handle_update c inp rec st
   | InsertRecord _ _ _ _ _ \<Rightarrow> handle_insert c inp rec st
   | DeleteRecord _ _ _ _ _ \<Rightarrow> handle_delete c inp rec st
   | RelationRecord _ _ \<Rightarrow> handle_relation rec st
   | MessageRecord _ _ _ \<Rightarrow> handle_message inp rec st)"


section \<open>One iteration\<close>

text \<open>Answering a keepalive message; an empty batch moves the consumed offset first.\<close>

definition answer_keepalive :: "pull_input \<Rightarrow> ('i, 'p) pull_state \<Rightarrow> ('i, 'p) pull_step" where
  "answer_keepalive inp st =
     (if pkmRequiresResponse st then
        bind_res
          (if totalRecords st = 0 \<and> sint (clientXLogPos st) > consumedOffset st then
             bind_res (updateConsumedOffset (inSetOffsetErr inp) st) (\<lambda>st.
               Inr (st\<lparr>lastEmptyBatchPkmSentTime := inNow inp\<rparr>))
           else Inr st) (\<lambda>st.
        bind_res (sendStandbyAfterReplLock (inStandbyErr inp) ''pkm-response'' (sync_store (inStoreStandby inp) st)) (\<lambda>st.
          Inr (st\<lparr>pkmRequiresResponse := False\<rparr>)))
      else Inr st)"

text \<open>Returning between transactions, when the batch is full or a commit was waited for.\<close>

definition check_batch :: "('i, 'p) pull_ctx \<Rightarrow> ('i, 'p) pull_state \<Rightarrow> ('i, 'p) pull_step" where
  "check_batch c st =
     (if commitLock (psSource st) = None then
        (if totalRecords st \<ge> uint (MaxBatchSize (cReq c)) then Inl (Returned None st)
         else if waitingForCommit st then Inl (Returned None st)
         else Inr st)
      else Inr st)"

definition check_deadline :: "('i, 'p) pull_ctx \<Rightarrow> pull_input \<Rightarrow> ('i, 'p) pull_state \<Rightarrow> ('i, 'p) pull_step" where
  "check_deadline c inp st =
     (if inNow inp > nextRecordDeadline st then
        bind_res
          (if totalRecords st \<noteq> 0 then
             (if commitLock (psSource st) = None then Inl (Returned None st)
              else
                (let st = (case largeTxnLastLogged st of
                     None \<Rightarrow> st\<lparr>largeTxnLastLogged := Some (inNow inp)\<rparr>
                   | Some t \<Rightarrow>
                       if inNow inp - t > 60 * 10 ^ 9 then
                         st\<lparr>psEffects := psEffects st @ [LogFlowInfo (totalRecords st) (totalFetchedBytes st)],
                            largeTxnLastLogged := Some (inNow inp)\<rparr>
                       else st)
                 in Inr (st\<lparr>waitingForCommit := True\<rparr>)))
           else Inr st) (\<lambda>st.
          Inr (st\<lparr>nextRecordDeadline := inNow inp + IdleTimeout (cReq c)\<rparr>))
      else Inr st)"

definition handle_keepalive :: "('i, 'p) pull_ctx \<Rightarrow> pull_input \<Rightarrow> lsn \<Rightarrow> bool \<Rightarrow> ('i, 'p) pull_state \<Rightarrow> ('i, 'p) pull_state" where
  "handle_keepalive c inp serverWALEnd replyRequested st =
     (let st = (if serverWALEnd > clientXLogPos st then st\<lparr>clientXLogPos := serverWALEnd\<rparr> else st);
          threshold = pkmEmptyBatchThrottleThresholdSeconds (cReq c) in
      if replyRequested \<or>
         (threshold \<noteq> -1 \<and> inNowAfter inp - lastEmptyBatchPkmSentTime st \<ge> threshold * 10 ^ 9)
      then st\<lparr>pkmRequiresResponse := True\<rparr> else st)"

definition handle_xlog ::
    "('i, 'p) pull_ctx \<Rightarrow> pull_input \<Rightarrow> nat \<Rightarrow> lsn \<Rightarrow> bytes \<Rightarrow> ('i, 'p) pull_state \<Rightarrow> ('i, 'p) pull_step" where
  "handle_xlog c inp len walStart walData st =
     (case processMessage (cOps c) (cProcessor c) (inEnv inp) walData walStart (clientXLogPos st)
             (psSource st) (psRecords st) (warnedReplIdentTables st) of
        Inl e \<Rightarrow> fail (LogicalMessageError e) st
      | Inr r \<Rightarrow>
          (let st = st\<lparr>psSource := prSource r, psRecords := prBatch r, warnedReplIdentTables := prWarned r\<rparr>;
               st = (if walStart > clientXLogPos st then st\<lparr>clientXLogPos := walStart\<rparr> else st) in
           case prRecord r of
             None \<Rightarrow> Inr st
           | Some rec \<Rightarrow> handle_record c inp rec (st\<lparr>totalFetchedBytes := totalFetchedBytes st + int len\<rparr>)))"

definition handle_received :: "('i, 'p) pull_ctx \<Rightarrow> pull_input \<Rightarrow> ('i, 'p) pull_state \<Rightarrow> ('i, 'p) pull_step" where
  "handle_received c inp st = (case inReceived inp of
     CtxCancelled e \<Rightarrow> fail (Preempted e) st
   | RecvTimeout \<Rightarrow> sendStandbyAfterReplLock (inTimeoutStandbyErr inp) ''receive-timeout'' st
   | RecvError sshBad e \<Rightarrow> fail (ReceiveFailed sshBad e) st
   | ErrorResponse e \<Rightarrow> fail (WalError e) st
   | CopyData len payload \<Rightarrow>
      (case payload of
         EmptyData \<Rightarrow> Inl (Panicked IndexOutOfRange)
       | UnknownByteID \<Rightarrow> Inr st
       | PrimaryKeepalive (Inl e) \<Rightarrow> fail (ParseKeepaliveFailed e) st
       | PrimaryKeepalive (Inr (serverWALEnd, replyRequested)) \<Rightarrow>
           Inr (handle_keepalive c inp serverWALEnd replyRequested st)
       | XLogData (Inl e) \<Rightarrow> fail (ParseXLogFailed e) st
       | XLogData (Inr (walStart, walData)) \<Rightarrow> handle_xlog c inp len walStart walData st)
   | OtherBackendMessage \<Rightarrow> Inr st)"

definition pull_iteration :: "('i, 'p) pull_ctx \<Rightarrow> pull_input \<Rightarrow> ('i, 'p) pull_state \<Rightarrow> ('i, 'p) pull_step" where
  "pull_iteration c inp st =
     bind_res (answer_keepalive inp (sync_store (inStoreBefore inp) st)) (\<lambda>st.
     bind_res (check_batch c st) (\<lambda>st.
     bind_res (check_deadline c inp st) (\<lambda>st.
       handle_received c inp (sync_store (inStoreAfter inp) st))))"

section \<open>The whole pull\<close>

fun pull_loop :: "('i, 'p) pull_ctx \<Rightarrow> pull_input list \<Rightarrow> ('i, 'p) pull_state \<Rightarrow> ('i, 'p) pull_step" where
  "pull_loop c [] st = Inr st"
| "pull_loop c (inp # inps) st = bind_res (pull_iteration c inp st) (pull_loop c inps)"

text \<open>The deferred calls: an empty batch is signalled, the store is closed.\<close>

definition pull_deferred :: "('i, 'p) pull_ctx \<Rightarrow> ('i, 'p) pull_state \<Rightarrow> (go_panic, ('i, 'p) pull_state) res" where
  "pull_deferred c st =
     bind_res (if totalRecords st = 0 then
         (case SignalAsEmpty (psRecords st) of Inl p \<Rightarrow> Inl p | Inr r \<Rightarrow> Inr (st\<lparr>psRecords := r\<rparr>))
       else Inr st) (\<lambda>st.
       Inr (case cdcRecordsStorage st of
          None \<Rightarrow> st
        | Some s \<Rightarrow> st\<lparr>cdcRecordsStorage := Some (snd (store_Close (cPebble c) s))\<rparr>))"

text \<open>
  The part before the loop: the position from the last offset, with a first standby message,
  and the store (\<open>None\<close>: not enabled). It may fail before the deferred calls are in place.
\<close>

definition pull_start ::
    "('i, 'p) pull_ctx \<Rightarrow> string option \<Rightarrow> (store_error, ('i, 'p) CDCStore) res option \<Rightarrow> int \<Rightarrow> int
     \<Rightarrow> PostgresCDCSource \<Rightarrow> 'i CDCStream \<Rightarrow> ('i, 'p) pull_step" where
  "pull_start c standbyErr newStore now offset src stream =
     (let st = \<lparr>psSource = src, psRecords = stream, cdcRecordsStorage = None, totalRecords = 0,
            totalFetchedBytes = 0, clientXLogPos = 0, consumedOffset = offset, waitingForCommit = False,
            nextRecordDeadline = now + IdleTimeout (cReq c), pkmRequiresResponse = False,
            largeTxnLastLogged = None, lastEmptyBatchPkmSentTime = now, warnedReplIdentTables = {},
            psEffects = []\<rparr> in
      bind_res (if LastOffsetID (cReq c) > 0 then
          sendStandbyAfterReplLock standbyErr ''initial-flush''
            (st\<lparr>clientXLogPos := word_of_int (LastOffsetID (cReq c))\<rparr>)
        else Inr st) (\<lambda>st.
        (case newStore of
           None \<Rightarrow> Inr st
         | Some (Inl e) \<Rightarrow> fail (StorageError e) st
         | Some (Inr s) \<Rightarrow> Inr (st\<lparr>cdcRecordsStorage := Some s\<rparr>))))"


section \<open>The invariant of the loop\<close>

definition pull_inv :: "('i, 'p) pull_state \<Rightarrow> bool" where
  "pull_inv st \<longleftrightarrow> stream_inv (psRecords st) \<and> \<not> recordsClosed (psRecords st) \<and> 0 \<le> totalRecords st \<and>
     (emptySet (psRecords st) \<longleftrightarrow> 0 < totalRecords st) \<and>
     (0 < totalRecords st \<longrightarrow> \<not> streamEmpty (psRecords st)) \<and>
     totalRecords st = int (length (filter is_row (sent (psRecords st))))"

definition exit_ok :: "('i, 'p) pull_exit \<Rightarrow> bool" where
  "exit_ok e = (case e of
     Returned err st \<Rightarrow> pull_inv st \<and> (err = None \<longrightarrow> commitLock (psSource st) = None)
   | Panicked p \<Rightarrow> p \<noteq> CloseOfClosedChannel \<and> p \<noteq> SendOnClosedChannel
   | Blocked \<Rightarrow> True)"

definition step_ok :: "('i, 'p) pull_step \<Rightarrow> bool" where
  "step_ok r = (case r of Inl e \<Rightarrow> exit_ok e | Inr st \<Rightarrow> pull_inv st)"

lemma step_ok_simps [simp]:
  "step_ok (Inr st) = pull_inv st" "step_ok (Inl e) = exit_ok e"
  "exit_ok (Returned (Some err) st) = pull_inv st" "exit_ok Blocked"
  "exit_ok (Returned None st) = (pull_inv st \<and> commitLock (psSource st) = None)"
  "exit_ok (Panicked p) = (p \<noteq> CloseOfClosedChannel \<and> p \<noteq> SendOnClosedChannel)"
  by (simp_all add: step_ok_def exit_ok_def)

lemma step_ok_fail [simp]: "step_ok (fail e st) = pull_inv st"
  by (simp add: fail_def)

lemma step_ok_bind:
  "(\<And>e. m = Inl e \<Longrightarrow> exit_ok e) \<Longrightarrow> (\<And>x. m = Inr x \<Longrightarrow> step_ok (f x)) \<Longrightarrow> step_ok (bind_res m f)"
  by (cases m) simp_all

lemma step_ok_bind_state:
  "step_ok m \<Longrightarrow> (\<And>st. pull_inv st \<Longrightarrow> step_ok (f st)) \<Longrightarrow> step_ok (bind_res m f)"
  by (cases m) simp_all

text \<open>The invariant does not look at the other fields.\<close>

lemma pull_inv_fields:
  "psRecords st' = psRecords st \<Longrightarrow> totalRecords st' = totalRecords st \<Longrightarrow> pull_inv st' = pull_inv st"
  by (simp add: pull_inv_def)

lemma pull_inv_upds [simp]:
  "pull_inv (st\<lparr>psSource := a\<rparr>) = pull_inv st" "pull_inv (st\<lparr>cdcRecordsStorage := b\<rparr>) = pull_inv st"
  "pull_inv (st\<lparr>totalFetchedBytes := d\<rparr>) = pull_inv st" "pull_inv (st\<lparr>clientXLogPos := e\<rparr>) = pull_inv st"
  "pull_inv (st\<lparr>consumedOffset := f\<rparr>) = pull_inv st" "pull_inv (st\<lparr>waitingForCommit := g\<rparr>) = pull_inv st"
  "pull_inv (st\<lparr>nextRecordDeadline := h\<rparr>) = pull_inv st" "pull_inv (st\<lparr>pkmRequiresResponse := i\<rparr>) = pull_inv st"
  "pull_inv (st\<lparr>largeTxnLastLogged := j\<rparr>) = pull_inv st" "pull_inv (st\<lparr>lastEmptyBatchPkmSentTime := k\<rparr>) = pull_inv st"
  "pull_inv (st\<lparr>warnedReplIdentTables := l\<rparr>) = pull_inv st" "pull_inv (st\<lparr>psEffects := n\<rparr>) = pull_inv st"
  by (simp_all add: pull_inv_def)

lemma pull_inv_sync [simp]: "pull_inv (sync_store v st) = pull_inv st"
  by (simp add: sync_store_def split: option.split)

lemma store_in_memory_panic: "store_in_memory k r c = Inl (StorePanic p) \<Longrightarrow> p = AssignToNilMap"
  by (simp add: store_in_memory_def split: option.splits)

lemma store_on_disk_panic: "store_on_disk px k r c = Inl (StorePanic p) \<Longrightarrow> p = NilDereference"
proof -
  assume s: "store_on_disk px k r c = Inl (StorePanic p)"
  have i: "initPebbleDB px c \<noteq> Inl (StorePanic p)"
    by (simp add: initPebbleDB_def split: option.split sum.split)
  show ?thesis
  proof (cases "initPebbleDB px c")
    case (Inr c1)
    with s show ?thesis
      by (cases "gob_key px k"; cases "gob_rec px r"; cases "pebbleDB c1")
         (auto simp: store_on_disk_def encVal_def split: sum.splits)
  qed (use s i in \<open>auto simp: store_on_disk_def\<close>)
qed

lemma store_Set_panic:
  assumes "store_Set px h c k r = Inl (StorePanic p)"
  shows "p \<noteq> CloseOfClosedChannel" and "p \<noteq> SendOnClosedChannel"
  using assms store_in_memory_panic [of k r _ p] store_on_disk_panic [of px k r _ p]
  by (auto simp: store_Set_def res_iff case_prod_unfold Let_def split: if_split_asm)

lemma store_record_step: "pull_inv st \<Longrightarrow> step_ok (store_record c inp k r st)"
  using store_Set_panic [of "cPebble c" "inHeap inp" _ k r]
  by (auto simp: store_record_def split: option.split sum.split store_error.split)

lemma store_record_Inr:
  "store_record c inp k r st = Inr st' \<Longrightarrow> \<exists>s. st' = st \<or> st' = st\<lparr>cdcRecordsStorage := s\<rparr>"
  by (auto simp: store_record_def fail_def split: option.splits sum.splits store_error.splits)

lemma pull_inv_mark: "pull_inv st \<Longrightarrow> pull_inv (st\<lparr>psRecords := mark_first_row n x (psRecords st)\<rparr>)"
  by (simp add: pull_inv_def stream_inv_mark)

lemma send_record_exit:
  assumes "pull_inv st" and "send_record inp x st = Inl e"
  shows "exit_ok e"
proof (cases "AddRecord (inNowAfter inp) (inWait inp) (psRecords st) x")
  case (AddCancelled r)
  then have "r = mark_first_row (inNowAfter inp) x (psRecords st)" using AddRecord_not_added by blast
  with AddCancelled assms show ?thesis by (auto simp: send_record_def fail_def pull_inv_mark)
next
  case (AddPanic p)
  then show ?thesis using assms AddRecord_no_panic [of "psRecords st" "inNowAfter inp" "inWait inp" x p]
    by (simp add: pull_inv_def)
qed (use assms in \<open>auto simp: send_record_def fail_def\<close>)

lemma send_record_Inr:
  assumes "send_record inp x st = Inr st'"
  shows "\<exists>r. st' = st\<lparr>psRecords := r\<rparr> \<and> AddRecord (inNowAfter inp) (inWait inp) (psRecords st) x = Added r"
  using assms by (auto simp: send_record_def fail_def split: add_outcome.splits)

text \<open>A message record is not a row and is not counted.\<close>

lemma send_message_step:
  assumes "pull_inv st" and "\<not> is_row x" and "0 < totalRecords st"
  shows "step_ok (send_record inp x st)"
proof (cases "send_record inp x st")
  case (Inl e)
  then show ?thesis using send_record_exit [OF assms(1)] by simp
next
  case (Inr st')
  from send_record_Inr [OF this] obtain r where
    r: "st' = st\<lparr>psRecords := r\<rparr>" "AddRecord (inNowAfter inp) (inWait inp) (psRecords st) x = Added r" by blast
  have "stream_inv r" using AddRecord_inv [OF _ r(2)] assms(1) by (simp add: pull_inv_def)
  then show ?thesis using assms Inr r(1) AddRecord_fields [OF r(2)] by (simp add: pull_inv_def)
qed

lemma count_after_send:
  assumes "pull_inv st" and "is_row x" and "AddRecord now es (psRecords st) x = Added r"
  shows "step_ok (count_record c inp (st\<lparr>psRecords := r\<rparr>))"
proof -
  have inv: "stream_inv r" using AddRecord_inv [OF _ assms(3)] assms(1) by (simp add: pull_inv_def)
  note f = AddRecord_fields [OF assms(3)]
  have total: "totalRecords st + 1 = int (length (filter is_row (sent r)))"
    using assms(1,2) f(1) by (simp add: pull_inv_def)
  show ?thesis
  proof (cases "totalRecords st = 0")
    case True
    then have "\<not> emptySet r" using assms(1) f(3) by (simp add: pull_inv_def)
    note sig = Signal_ok(2) [OF inv this]
    have "stream_inv (r\<lparr>streamEmpty := False, emptySet := True, emptySignalClosed := True\<rparr>)"
      by (rule Signal_inv(2) [OF inv sig])
    then show ?thesis using True total f assms(1) by (simp add: count_record_def sig pull_inv_def)
  next
    case False
    then show ?thesis using total f assms(1) inv by (simp add: count_record_def pull_inv_def)
  qed
qed

lemma addRecordWithKey_step:
  assumes "pull_inv st" and "is_row x"
  shows "step_ok (addRecordWithKey c inp k x st)"
  unfolding addRecordWithKey_def
proof (rule step_ok_bind)
  fix e assume "store_record c inp k x st = Inl e"
  with store_record_step [OF assms(1), of c inp k x] show "exit_ok e" by simp
next
  fix st1 assume st1: "store_record c inp k x st = Inr st1"
  with store_record_step [OF assms(1), of c inp k x] have inv: "pull_inv st1" by simp
  show "step_ok (bind_res (send_record inp x st1) (count_record c inp))"
  proof (rule step_ok_bind)
    show "exit_ok e" if "send_record inp x st1 = Inl e" for e by (rule send_record_exit [OF inv that])
    show "step_ok (count_record c inp st2)" if "send_record inp x st1 = Inr st2" for st2
      using send_record_Inr [OF that] count_after_send [OF inv assms(2)] by blast
  qed
qed


lemma isFullReplica_exit: "isFullReplica c x = Inl e \<Longrightarrow> exit_ok e"
  by (auto simp: isFullReplica_def split: option.splits)

lemma record_key_exit: "pull_inv st \<Longrightarrow> record_key c x st = Inl e \<Longrightarrow> exit_ok e"
  by (auto simp: record_key_def split: sum.splits)

lemma latest_record_exit: "pull_inv st \<Longrightarrow> latest_record c k st = Inl e \<Longrightarrow> exit_ok e"
  by (auto simp: latest_record_def split: sum.splits option.splits)

lemma is_row_backfill [simp]:
  "is_row (backfill_update ops l x) = is_row x" "is_row (backfill_delete ops l x) = is_row x"
  by (cases "(ops, l, x)" rule: backfill_update.cases; simp add: case_prod_unfold Let_def)
     (cases "(ops, l, x)" rule: backfill_delete.cases; simp)

text \<open>What the handlers of rows have in common: a table of full replica identity takes another path.\<close>

lemma row_handler_step:
  assumes "pull_inv st" and "is_row x"
    and "\<And>key. step_ok (f key)"
  shows "step_ok (bind_res (isFullReplica c x) (\<lambda>full.
    if full then addRecordWithKey c inp k x st else bind_res (record_key c x st) f))"
proof (rule step_ok_bind)
  show "exit_ok e" if "isFullReplica c x = Inl e" for e by (rule isFullReplica_exit [OF that])
  have "step_ok (bind_res (record_key c x st) f)"
    by (rule step_ok_bind) (auto intro: record_key_exit [OF assms(1)] assms(3))
  then show "step_ok (if full then addRecordWithKey c inp k x st else bind_res (record_key c x st) f)" for full
    using addRecordWithKey_step [OF assms(1,2)] by simp
qed

lemma backfilled_step:
  assumes "pull_inv st" and "\<And>l. is_row (g l)"
  shows "step_ok (bind_res (latest_record c key st) (\<lambda>l. addRecordWithKey c inp k (g l) st))"
  by (rule step_ok_bind [OF latest_record_exit [OF assms(1)] addRecordWithKey_step [OF assms]])

lemma handle_insert_step: "pull_inv st \<Longrightarrow> is_row x \<Longrightarrow> step_ok (handle_insert c inp x st)"
  unfolding handle_insert_def by (intro row_handler_step addRecordWithKey_step)

lemma handle_update_step: "pull_inv st \<Longrightarrow> is_row x \<Longrightarrow> step_ok (handle_update c inp x st)"
  unfolding handle_update_def by (intro row_handler_step backfilled_step) simp_all

lemma handle_delete_step: "pull_inv st \<Longrightarrow> is_row x \<Longrightarrow> step_ok (handle_delete c inp x st)"
  unfolding handle_delete_def by (intro row_handler_step backfilled_step) simp_all

lemma pull_inv_same:
  assumes "pull_inv st" and "stream_inv r" and "sent r = sent (psRecords st)"
    and "emptySet r = emptySet (psRecords st)" and "streamEmpty r = streamEmpty (psRecords st)"
    and "recordsClosed r = recordsClosed (psRecords st)"
  shows "pull_inv (st\<lparr>psRecords := r\<rparr>)"
  using assms by (simp add: pull_inv_def)

lemma pull_inv_stream: "pull_inv st \<Longrightarrow> stream_inv (psRecords st)"
  by (simp add: pull_inv_def)

lemma pull_inv_delta: "pull_inv st \<Longrightarrow> pull_inv (st\<lparr>psRecords := AddSchemaDelta (psRecords st) d\<rparr>)"
  by (rule pull_inv_same) (simp_all add: pull_inv_stream, simp_all add: AddSchemaDelta_def)

lemma pull_inv_checkpoint: "pull_inv st \<Longrightarrow> pull_inv (st\<lparr>psRecords := UpdateLatestCheckpointID (psRecords st) v\<rparr>)"
  by (rule pull_inv_same) (simp_all add: pull_inv_stream, simp_all add: UpdateLatestCheckpointID_def)

lemma handle_relation_step: "pull_inv st \<Longrightarrow> step_ok (handle_relation x st)"
  by (simp add: handle_relation_def pull_inv_delta)

lemma updateConsumedOffset_step: "pull_inv st \<Longrightarrow> step_ok (updateConsumedOffset err st)"
  by (simp add: updateConsumedOffset_def split: option.split)

lemma sendStandby_step: "pull_inv st \<Longrightarrow> step_ok (sendStandbyAfterReplLock err t st)"
  by (simp add: sendStandbyAfterReplLock_def split: option.split)

lemma handle_message_step: "pull_inv st \<Longrightarrow> \<not> is_row x \<Longrightarrow> step_ok (handle_message inp x st)"
  using send_message_step [of st x inp] updateConsumedOffset_step [of st "inMessageOffsetErr inp"]
  by (auto simp: handle_message_def pull_inv_def)

lemma handle_record_step: "pull_inv st \<Longrightarrow> step_ok (handle_record c inp x st)"
  by (cases x) (simp_all add: handle_record_def handle_update_step handle_insert_step handle_delete_step
      handle_relation_step handle_message_step)

lemma batch_after_inv: "pull_inv st \<Longrightarrow> pull_inv (st\<lparr>psRecords := batch_after msg (psRecords st)\<rparr>)"
  by (cases msg) (simp_all add: pull_inv_checkpoint)

lemma handle_xlog_step: "pull_inv st \<Longrightarrow> step_ok (handle_xlog c inp len ws d st)"
proof (cases "processMessage (cOps c) (cProcessor c) (inEnv inp) d ws (clientXLogPos st)
             (psSource st) (psRecords st) (warnedReplIdentTables st)")
  case (Inr r)
  assume inv: "pull_inv st"
  from Inr obtain msg where "parse_wal (inEnv inp) d = Inr msg" by (auto simp: processMessage_def split: sum.splits)
  from processMessage_ok [OF Inr this] have b: "prBatch r = batch_after msg (psRecords st)" by (simp add: message_ok_def)
  have inv': "pull_inv (st\<lparr>psSource := prSource r, psRecords := prBatch r, warnedReplIdentTables := prWarned r\<rparr>)"
    using batch_after_inv [OF inv, of msg] b by (simp add: pull_inv_def)
  then show ?thesis using Inr
    by (cases "prRecord r") (simp_all add: handle_xlog_def Let_def handle_record_step)
qed (simp add: handle_xlog_def)

lemma handle_keepalive_inv: "pull_inv (handle_keepalive c inp e r st) = pull_inv st"
  by (simp add: handle_keepalive_def Let_def)

lemma handle_received_step: "pull_inv st \<Longrightarrow> step_ok (handle_received c inp st)"
  by (simp add: handle_received_def sendStandby_step handle_keepalive_inv handle_xlog_step
      split: received.split copy_payload.split sum.split prod.split)

lemma answer_keepalive_step: "pull_inv st \<Longrightarrow> step_ok (answer_keepalive inp st)"
  unfolding answer_keepalive_def
  by (auto intro!: step_ok_bind_state updateConsumedOffset_step sendStandby_step)

lemma check_batch_step: "pull_inv st \<Longrightarrow> step_ok (check_batch c st)"
  by (simp add: check_batch_def)

lemma check_deadline_step: "pull_inv st \<Longrightarrow> step_ok (check_deadline c inp st)"
  unfolding check_deadline_def
  by (auto intro!: step_ok_bind_state simp: Let_def split: option.split)

lemma pull_iteration_step: "pull_inv st \<Longrightarrow> step_ok (pull_iteration c inp st)"
  unfolding pull_iteration_def
  by (intro step_ok_bind_state answer_keepalive_step check_batch_step check_deadline_step handle_received_step) simp_all

lemma pull_loop_step: "pull_inv st \<Longrightarrow> step_ok (pull_loop c inps st)"
  by (induction inps arbitrary: st) (auto intro!: step_ok_bind_state pull_iteration_step)

lemma pull_start_inv:
  assumes "stream_inv stream" and "\<not> emptySet stream" and "sent stream = []"
    and "pull_start c err ns now off src stream = Inr st"
  shows "pull_inv st" and "psRecords st = stream" and "psSource st = src" and "consumedOffset st = off"
  using assms
  by (auto simp: pull_start_def pull_inv_def res_iff sendStandbyAfterReplLock_def fail_def Let_def stream_inv_def
      split: if_split_asm option.splits sum.splits)

end
