(* ===== verification/PgPullAck.thy ===== *)
theory PgPullAck
  imports PgPull
begin

text \<open>
  What the pull loop of connectors/postgres/cdc.go tells the source it has consumed: the
  positions it sends in standby status updates and stores as the last offset.
\<close>

section \<open>What is acknowledged\<close>

definition out_all :: "(('i, 'p) pull_state \<Rightarrow> bool) \<Rightarrow> ('i, 'p) pull_step \<Rightarrow> bool" where
  "out_all P r = (case r of Inr st \<Rightarrow> P st | Inl (Returned _ st) \<Rightarrow> P st | Inl _ \<Rightarrow> True)"

lemma out_all_simps [simp]:
  "out_all P (Inr st) = P st" "out_all P (Inl (Returned e st)) = P st"
  "out_all P (Inl (Panicked p))" "out_all P (Inl Blocked)" "out_all P (fail e' st) = P st"
  by (simp_all add: out_all_def fail_def)

lemma out_all_mono: "out_all P r \<Longrightarrow> (\<And>st. P st \<Longrightarrow> Q st) \<Longrightarrow> out_all Q r"
  by (auto simp: out_all_def split: sum.splits pull_exit.splits)

lemma out_all_bind:
  assumes "out_all P m" and "\<And>st. P st \<Longrightarrow> out_all Q (f st)" and "\<And>st. P st \<Longrightarrow> Q st"
  shows "out_all Q (bind_res m f)"
  using assms by (cases m) (auto simp: out_all_def split: pull_exit.splits)

lemma out_all_value:
  assumes "\<And>e. m = Inl e \<Longrightarrow> out_all Q (Inl e)" and "\<And>x. m = Inr x \<Longrightarrow> out_all Q (f x)"
  shows "out_all Q (bind_res m f)"
  using assms by (cases m) auto

text \<open>Adding records sends nothing to the source and does not move the position.\<close>

definition quiet :: "('i, 'p) pull_state \<Rightarrow> ('i, 'p) pull_state \<Rightarrow> bool" where
  "quiet st st' \<longleftrightarrow> psEffects st' = psEffects st \<and> clientXLogPos st' = clientXLogPos st \<and>
     consumedOffset st' = consumedOffset st \<and>
     totalRecords st \<le> totalRecords st' \<and> (waitingForCommit st \<longrightarrow> waitingForCommit st')"

lemma quiet_refl [simp]: "quiet st st"
  by (simp add: quiet_def)

lemma quiet_trans: "quiet a b \<Longrightarrow> quiet b c \<Longrightarrow> quiet a c"
  by (simp add: quiet_def)

lemma store_record_quiet: "out_all (quiet st) (store_record c inp k x st)"
  by (auto simp: store_record_def quiet_def split: option.split sum.split store_error.split)

lemma send_record_quiet: "out_all (quiet st) (send_record inp x st)"
  by (simp add: send_record_def quiet_def split: add_outcome.split)

lemma count_record_quiet: "out_all (quiet st) (count_record c inp st)"
  by (simp add: count_record_def quiet_def Let_def split: sum.split)

lemma addRecordWithKey_quiet: "out_all (quiet st) (addRecordWithKey c inp k x st)"
  unfolding addRecordWithKey_def
proof (rule out_all_bind [OF store_record_quiet])
  fix a assume a: "quiet st a"
  show "out_all (quiet st) (bind_res (send_record inp x a) (count_record c inp))"
  proof (rule out_all_bind [OF send_record_quiet])
    fix b assume "quiet a b"
    with a have "quiet st b" by (rule quiet_trans)
    then show "quiet st b" .
    show "out_all (quiet st) (count_record c inp b)"
      by (rule out_all_mono [OF count_record_quiet quiet_trans [OF \<open>quiet st b\<close>]])
  qed
qed

lemma isFullReplica_quiet: "isFullReplica c x = Inl e \<Longrightarrow> out_all Q (Inl e)"
  by (auto simp: isFullReplica_def split: option.splits)

lemma record_key_quiet: "record_key c x st = Inl e \<Longrightarrow> out_all (quiet st) (Inl e)"
  by (auto simp: record_key_def split: sum.splits)

lemma latest_record_quiet: "latest_record c k st = Inl e \<Longrightarrow> out_all (quiet st) (Inl e)"
  by (auto simp: latest_record_def split: sum.splits option.splits)

lemma row_handlers_quiet:
  "out_all (quiet st) (handle_insert c inp x st)" "out_all (quiet st) (handle_update c inp x st)"
  "out_all (quiet st) (handle_delete c inp x st)"
proof -
  have full: "out_all (quiet st) (bind_res (isFullReplica c x) (\<lambda>full.
      if full then addRecordWithKey c inp k x st else bind_res (record_key c x st) f))"
    if "\<And>key. out_all (quiet st) (f key)" for k f
  proof (rule out_all_value [OF isFullReplica_quiet])
    have "out_all (quiet st) (bind_res (record_key c x st) f)"
      by (rule out_all_value [OF record_key_quiet that])
    then show "out_all (quiet st) (if b then addRecordWithKey c inp k x st else bind_res (record_key c x st) f)" for b
      by (simp add: addRecordWithKey_quiet)
  qed
  have latest: "out_all (quiet st) (bind_res (latest_record c key st) (\<lambda>l. addRecordWithKey c inp k (g l) st))" for key k g
    by (rule out_all_value [OF latest_record_quiet addRecordWithKey_quiet])
  show "out_all (quiet st) (handle_insert c inp x st)"
    unfolding handle_insert_def by (rule full [OF addRecordWithKey_quiet])
  show "out_all (quiet st) (handle_update c inp x st)"
    unfolding handle_update_def by (rule full [OF latest])
  show "out_all (quiet st) (handle_delete c inp x st)"
    unfolding handle_delete_def by (rule full [OF latest])
qed

text \<open>
  What an iteration that starts in \<open>st0\<close> may do, where \<open>K\<close> has the consumed offset at its start and what the sync
  side stores during it. Only an empty batch moves the last offset, to one of the positions \<open>P\<close>
  and forward; an offset is acknowledged only if it is in \<open>K\<close> or was set as the last one, and the
  consumed offset is one of these too.
\<close>

definition settable :: "int set \<Rightarrow> int set \<Rightarrow> ('i, 'p) pull_state \<Rightarrow> int \<Rightarrow> bool" where
  "settable K P st0 v \<longleftrightarrow> totalRecords st0 \<le> 0 \<and> v \<in> P \<and> (\<exists>w \<in> insert (sint (clientXLogPos st0)) K. w < v)"

definition acc :: "int set \<Rightarrow> int set \<Rightarrow> ('i, 'p) pull_state \<Rightarrow> ('i, 'p) pull_state \<Rightarrow> bool" where
  "acc K P st0 st \<longleftrightarrow> (\<exists>es. psEffects st = psEffects st0 @ es \<and>
     (\<forall>v. SentStandby v \<in> set es \<longrightarrow> v \<in> K \<or> SetLastOffset v \<in> set es) \<and>
     (\<forall>v. SetLastOffset v \<in> set es \<longrightarrow> settable K P st0 v) \<and>
     (consumedOffset st \<in> K \<or> SetLastOffset (consumedOffset st) \<in> set es)) \<and>
     totalRecords st0 \<le> totalRecords st \<and> clientXLogPos st0 \<le> clientXLogPos st \<and>
     (waitingForCommit st0 \<longrightarrow> waitingForCommit st)"

text \<open>Before a message is handled, and after it.\<close>

abbreviation acc_mid :: "int set \<Rightarrow> ('i, 'p) pull_state \<Rightarrow> ('i, 'p) pull_state \<Rightarrow> bool" where
  "acc_mid K st0 st \<equiv> acc K {sint (clientXLogPos st0)} st0 st"

abbreviation acc_end :: "int set \<Rightarrow> ('i, 'p) pull_state \<Rightarrow> ('i, 'p) pull_state \<Rightarrow> bool" where
  "acc_end K st0 st \<equiv> acc K {sint (clientXLogPos st0), sint (clientXLogPos st)} st0 st"

definition acc_before :: "int set \<Rightarrow> ('i, 'p) pull_state \<Rightarrow> ('i, 'p) pull_state \<Rightarrow> bool" where
  "acc_before K st0 st \<longleftrightarrow> acc_mid K st0 st \<and> totalRecords st = totalRecords st0 \<and>
     clientXLogPos st = clientXLogPos st0"

lemma acc_mono: "acc K P st0 st \<Longrightarrow> P \<subseteq> Q \<Longrightarrow> acc K Q st0 st"
  unfolding acc_def settable_def by blast

lemma acc_mid_end: "acc_mid K st0 st \<Longrightarrow> acc_end K st0 st"
  by (erule acc_mono) simp

lemma acc_quiet: "acc K P st0 st \<Longrightarrow> quiet st st' \<Longrightarrow> acc K P st0 st'"
  by (auto simp: acc_def quiet_def)

lemma acc_effect:
  assumes "acc K P st0 st" and "case e of SentStandby v \<Rightarrow> v = consumedOffset st | SetLastOffset v \<Rightarrow> settable K P st0 v
      | LogFlowInfo a b \<Rightarrow> True"
    and "psEffects st' = psEffects st @ [e]" and "totalRecords st' = totalRecords st" and "clientXLogPos st' = clientXLogPos st"
    and "waitingForCommit st' = waitingForCommit st"
    and "consumedOffset st' = consumedOffset st \<or> e = SetLastOffset (consumedOffset st')"
  shows "acc K P st0 st'"
proof -
  from assms(1) obtain es where es: "psEffects st = psEffects st0 @ es"
    "\<forall>v. SentStandby v \<in> set es \<longrightarrow> v \<in> K \<or> SetLastOffset v \<in> set es" "\<forall>v. SetLastOffset v \<in> set es \<longrightarrow> settable K P st0 v"
    "consumedOffset st \<in> K \<or> SetLastOffset (consumedOffset st) \<in> set es"
    by (auto simp: acc_def)
  have "\<exists>es. psEffects st' = psEffects st0 @ es \<and> (\<forall>v. SentStandby v \<in> set es \<longrightarrow> v \<in> K \<or> SetLastOffset v \<in> set es) \<and>
     (\<forall>v. SetLastOffset v \<in> set es \<longrightarrow> settable K P st0 v) \<and>
     (consumedOffset st' \<in> K \<or> SetLastOffset (consumedOffset st') \<in> set es)"
    using es assms(2,3,7) by (intro exI [of _ "es @ [e]"]) auto
  then show ?thesis using assms(1,4,5,6) by (simp add: acc_def)
qed

lemma acc_send: "acc K P st0 st \<Longrightarrow> acc K P st0 (st\<lparr>psEffects := psEffects st @ [SentStandby (consumedOffset st)]\<rparr>)"
  by (rule acc_effect [where e = "SentStandby (consumedOffset st)"]) simp_all

lemma acc_log: "acc K P st0 st \<Longrightarrow> acc K P st0 (st\<lparr>psEffects := psEffects st @ [LogFlowInfo a b]\<rparr>)"
  by (rule acc_effect [where e = "LogFlowInfo a b"]) simp_all

lemma acc_set:
  "acc K P st0 st \<Longrightarrow> settable K P st0 v \<Longrightarrow>
   acc K P st0 (st\<lparr>consumedOffset := v, psEffects := psEffects st @ [SetLastOffset v]\<rparr>)"
  by (rule acc_effect [where e = "SetLastOffset v"]) simp_all

lemma acc_upds [simp]:
  "acc K P st0 (st\<lparr>lastEmptyBatchPkmSentTime := a\<rparr>) = acc K P st0 st"
  "acc K P st0 (st\<lparr>pkmRequiresResponse := b\<rparr>) = acc K P st0 st"
  "acc K P st0 st \<Longrightarrow> acc K P st0 (st\<lparr>waitingForCommit := True\<rparr>)"
  "acc K P st0 (st\<lparr>nextRecordDeadline := a\<rparr>) = acc K P st0 st"
  "acc K P st0 (st\<lparr>largeTxnLastLogged := d\<rparr>) = acc K P st0 st"
  "acc K P st0 (st\<lparr>totalFetchedBytes := a\<rparr>) = acc K P st0 st"
  by (simp_all add: acc_def)

lemma acc_before_upds [simp]:
  "acc_before K st0 (st\<lparr>lastEmptyBatchPkmSentTime := a\<rparr>) = acc_before K st0 st"
  "acc_before K st0 (st\<lparr>pkmRequiresResponse := b\<rparr>) = acc_before K st0 st"
  "acc_before K st0 st \<Longrightarrow> acc_before K st0 (st\<lparr>waitingForCommit := True\<rparr>)"
  "acc_before K st0 (st\<lparr>nextRecordDeadline := a\<rparr>) = acc_before K st0 st"
  "acc_before K st0 (st\<lparr>largeTxnLastLogged := d\<rparr>) = acc_before K st0 st"
  by (simp_all add: acc_before_def)

lemma acc_before_sync: "acc_before K st0 st \<Longrightarrow> set_option v \<subseteq> K \<Longrightarrow> acc_before K st0 (sync_store v st)"
  by (cases v) (auto simp: acc_before_def acc_def sync_store_def)

lemma sendStandby_acc: "acc_before K st0 st \<Longrightarrow> out_all (acc_before K st0) (sendStandbyAfterReplLock err t st)"
  by (simp add: sendStandbyAfterReplLock_def acc_before_def acc_send split: option.split)

text \<open>The offset moves only forward, from one that was known.\<close>

lemma acc_settable:
  assumes "acc K {sint (clientXLogPos st0)} st0 st" and "totalRecords st \<le> 0" and "consumedOffset st < v" and "v \<in> P"
  shows "settable K P st0 v"
proof -
  have "consumedOffset st \<in> insert (sint (clientXLogPos st0)) K"
    using assms(1) by (auto simp: acc_def settable_def)
  moreover have "totalRecords st0 \<le> 0" using assms(1,2) by (simp add: acc_def)
  ultimately show ?thesis using assms(3,4) unfolding settable_def by blast
qed

lemma updateConsumedOffset_before:
  assumes "acc_before K st0 st" and "totalRecords st = 0" and "consumedOffset st < sint (clientXLogPos st)"
  shows "out_all (acc_before K st0) (updateConsumedOffset err st)"
proof -
  have "settable K {sint (clientXLogPos st0)} st0 (sint (clientXLogPos st))"
    using assms acc_settable [of K st0 st "sint (clientXLogPos st)"] by (simp add: acc_before_def)
  with assms show ?thesis
    by (simp add: updateConsumedOffset_def acc_before_def acc_set split: option.split)
qed

lemma answer_keepalive_acc:
  assumes "acc_before K st0 st" and "set_option (inStoreStandby inp) \<subseteq> K"
  shows "out_all (acc_before K st0) (answer_keepalive inp st)"
proof -
  let ?A = "if totalRecords st = 0 \<and> sint (clientXLogPos st) > consumedOffset st then
             bind_res (updateConsumedOffset (inSetOffsetErr inp) st) (\<lambda>st.
               Inr (st\<lparr>lastEmptyBatchPkmSentTime := inNow inp\<rparr>))
           else Inr st"
  have "out_all (acc_before K st0) ?A"
    using assms(1) by (auto intro!: out_all_bind [OF updateConsumedOffset_before])
  then have "out_all (acc_before K st0) (bind_res ?A (\<lambda>st.
        bind_res (sendStandbyAfterReplLock (inStandbyErr inp) ''pkm-response'' (sync_store (inStoreStandby inp) st)) (\<lambda>st.
          Inr (st\<lparr>pkmRequiresResponse := False\<rparr>))))"
    by (rule out_all_bind) (use assms(2) in \<open>auto intro!: out_all_bind [OF sendStandby_acc] acc_before_sync\<close>)
  with assms(1) show ?thesis by (simp add: answer_keepalive_def)
qed

lemma check_batch_acc: "acc_before K st0 st \<Longrightarrow> out_all (acc_before K st0) (check_batch c st)"
  by (simp add: check_batch_def)

lemma acc_before_log:
  "acc_before K st0 st \<Longrightarrow> acc_before K st0 (st\<lparr>psEffects := psEffects st @ [LogFlowInfo a b]\<rparr>)"
  by (simp add: acc_before_def acc_log)

lemma check_deadline_acc: "acc_before K st0 st \<Longrightarrow> out_all (acc_before K st0) (check_deadline c inp st)"
  by (simp add: check_deadline_def Let_def acc_before_log split: option.split)

lemma quiet_acc: "out_all (quiet st) r \<Longrightarrow> acc_mid K st0 st \<Longrightarrow> out_all (acc_end K st0) r"
  by (erule out_all_mono) (rule acc_mid_end, rule acc_quiet)

lemma handle_message_acc:
  assumes "acc_mid K st0 st"
  shows "out_all (acc_end K st0) (handle_message inp x st)"
proof -
  have "acc_end K st0 (st\<lparr>consumedOffset := sint (clientXLogPos st), psEffects := psEffects st @ [SetLastOffset (sint (clientXLogPos st))]\<rparr>)"
    if "totalRecords st = 0" "sint (clientXLogPos st) > consumedOffset st"
    using acc_set [OF acc_mid_end [OF assms] acc_settable [OF assms]] that by simp
  then show ?thesis
    using assms quiet_acc [OF send_record_quiet [of st inp x] assms] acc_mid_end [OF assms]
    by (simp add: handle_message_def updateConsumedOffset_def split: option.split)
qed

lemma handle_record_acc:
  assumes "acc_mid K st0 st"
  shows "out_all (acc_end K st0) (handle_record c inp x st)"
proof -
  note rows = row_handlers_quiet [THEN quiet_acc, OF assms]
  have "out_all (acc_end K st0) (handle_relation d st)" for d
    using acc_mid_end [OF assms] by (simp add: handle_relation_def acc_def)
  then show ?thesis
    by (cases x) (simp_all only: handle_record_def Record.case rows handle_message_acc [OF assms])
qed

lemma acc_move:
  "acc_mid K st0 st \<Longrightarrow> clientXLogPos st \<le> w \<Longrightarrow> acc_mid K st0 (st\<lparr>clientXLogPos := w\<rparr>)"
  by (auto simp: acc_def)

lemma acc_message:
  "acc K P st0 (st\<lparr>psSource := a, psRecords := b, warnedReplIdentTables := d\<rparr>) = acc K P st0 st"
  by (simp add: acc_def)

lemma handle_xlog_acc:
  assumes "acc_mid K st0 st"
  shows "out_all (acc_end K st0) (handle_xlog c inp len ws d st)"
proof (cases "processMessage (cOps c) (cProcessor c) (inEnv inp) d ws (clientXLogPos st)
             (psSource st) (psRecords st) (warnedReplIdentTables st)")
  case (Inl e)
  then have "handle_xlog c inp len ws d st = fail (LogicalMessageError e) st"
    unfolding handle_xlog_def by (simp only: sum.case)
  then show ?thesis using acc_mid_end [OF assms] by simp
next
  case (Inr r)
  let ?st = "st\<lparr>psSource := prSource r, psRecords := prBatch r, warnedReplIdentTables := prWarned r\<rparr>"
  let ?st' = "if ws > clientXLogPos ?st then ?st\<lparr>clientXLogPos := ws\<rparr> else ?st"
  have mid: "acc_mid K st0 ?st'"
    using assms acc_move [of K st0 ?st ws] by (simp add: acc_message less_imp_le)
  have "out_all (acc_end K st0) (handle_record c inp rec (?st'\<lparr>totalFetchedBytes := n\<rparr>))" for rec n
    by (rule handle_record_acc) (simp only: acc_upds mid)
  with Inr acc_mid_end [OF mid] show ?thesis
    by (cases "prRecord r") (simp_all only: handle_xlog_def Let_def sum.case option.case out_all_simps)
qed

lemma handle_keepalive_acc: "acc_mid K st0 st \<Longrightarrow> acc_mid K st0 (handle_keepalive c inp e r st)"
  using acc_move [of K st0 st e] by (simp add: handle_keepalive_def Let_def less_imp_le)

lemma acc_before_end: "acc_before K st0 st \<Longrightarrow> acc_end K st0 st"
  using acc_mid_end by (simp add: acc_before_def)

lemma sendStandby_after:
  "acc_before K st0 st \<Longrightarrow> out_all (acc_end K st0) (sendStandbyAfterReplLock err t st)"
  by (rule out_all_mono [OF sendStandby_acc acc_before_end])

lemma handle_received_acc:
  assumes "acc_before K st0 st"
  shows "out_all (acc_end K st0) (handle_received c inp st)"
proof -
  have mid: "acc_mid K st0 st" using assms by (simp add: acc_before_def)
  show ?thesis
    using acc_mid_end [OF mid] acc_mid_end [OF handle_keepalive_acc [OF mid, of c inp]]
    by (simp add: handle_received_def sendStandby_after [OF assms] handle_xlog_acc [OF mid]
      split: received.split copy_payload.split sum.split prod.split)
qed

definition inp_stores :: "pull_input \<Rightarrow> int set" where
  "inp_stores inp = set_option (inStoreBefore inp) \<union> set_option (inStoreStandby inp) \<union> set_option (inStoreAfter inp)"

lemma after_answer_acc:
  assumes "acc_before K st a" and "set_option (inStoreAfter inp) \<subseteq> K"
  shows "out_all (acc_end K st) (bind_res (check_batch c a) (\<lambda>st.
      bind_res (check_deadline c inp st) (\<lambda>st. handle_received c inp (sync_store (inStoreAfter inp) st))))"
proof -
  have 4: "out_all (acc_end K st) (handle_received c inp (sync_store (inStoreAfter inp) a))"
    if "acc_before K st a" for a
    by (rule handle_received_acc, rule acc_before_sync [OF that assms(2)])
  have 3: "out_all (acc_end K st) (bind_res (check_deadline c inp a) (\<lambda>st. handle_received c inp (sync_store (inStoreAfter inp) st)))"
    if "acc_before K st a" for a
    by (rule out_all_bind [OF check_deadline_acc [OF that] 4 acc_before_end])
  show ?thesis
    by (rule out_all_bind [OF check_batch_acc [OF assms(1)] 3 acc_before_end])
qed

lemma pull_iteration_acc: "out_all (acc_end (insert (consumedOffset st) (inp_stores inp)) st) (pull_iteration c inp st)"
proof -
  let ?K = "insert (consumedOffset st) (inp_stores inp)"
  have K: "set_option (inStoreBefore inp) \<subseteq> ?K" "set_option (inStoreStandby inp) \<subseteq> ?K" "set_option (inStoreAfter inp) \<subseteq> ?K"
    by (auto simp: inp_stores_def)
  have "acc_before ?K st st" by (simp add: acc_before_def acc_def)
  then have "acc_before ?K st (sync_store (inStoreBefore inp) st)" by (rule acc_before_sync [OF _ K(1)])
  then have "out_all (acc_before ?K st) (answer_keepalive inp (sync_store (inStoreBefore inp) st))"
    by (rule answer_keepalive_acc [OF _ K(2)])
  then show ?thesis
    unfolding pull_iteration_def by (rule out_all_bind [OF _ after_answer_acc [OF _ K(3)] acc_before_end])
qed

text \<open>A keepalive that asks for a response gets one, unless the iteration fails.\<close>

lemma answer_keepalive_answers:
  assumes "pkmRequiresResponse st" and "answer_keepalive inp st = Inr a"
  shows "\<exists>es v. psEffects a = psEffects st @ es @ [SentStandby v]"
  using assms
  by (auto simp: answer_keepalive_def res_iff sendStandbyAfterReplLock_def updateConsumedOffset_def fail_def sync_store_def
      split: if_splits option.splits)

lemma sync_store_fields [simp]:
  "psEffects (sync_store v st) = psEffects st" "pkmRequiresResponse (sync_store v st) = pkmRequiresResponse st"
  "totalRecords (sync_store v st) = totalRecords st" "nextRecordDeadline (sync_store v st) = nextRecordDeadline st"
  "psSource (sync_store v st) = psSource st" "psRecords (sync_store v st) = psRecords st"
  "waitingForCommit (sync_store v st) = waitingForCommit st"
  by (simp_all add: sync_store_def split: option.split)

lemma pull_iteration_answers:
  assumes "pkmRequiresResponse st" and "pull_iteration c inp st = Inr st' \<or> pull_iteration c inp st = Inl (Returned None st')"
  shows "\<exists>es v. psEffects st' = psEffects st @ es \<and> SentStandby v \<in> set es"
proof -
  have ok: "answer_keepalive inp (sync_store (inStoreBefore inp) st) \<noteq> Inl (Returned None st')"
    by (auto simp: answer_keepalive_def res_iff sendStandbyAfterReplLock_def updateConsumedOffset_def fail_def
        split: if_splits option.splits)
  from assms(2) obtain a where a: "answer_keepalive inp (sync_store (inStoreBefore inp) st) = Inr a"
    and rest: "out_all (\<lambda>s. s = st') (bind_res (check_batch c a) (\<lambda>st.
      bind_res (check_deadline c inp st) (\<lambda>st. handle_received c inp (sync_store (inStoreAfter inp) st))))"
    using ok by (cases "answer_keepalive inp (sync_store (inStoreBefore inp) st)") (auto simp: pull_iteration_def)
  from answer_keepalive_answers [OF _ a] assms(1) obtain es v where "psEffects a = psEffects st @ es @ [SentStandby v]"
    by auto
  moreover have "acc_before (insert (consumedOffset a) (inp_stores inp)) a a" by (simp add: acc_before_def acc_def)
  then have "out_all (\<lambda>s. \<exists>es. psEffects s = psEffects a @ es) (bind_res (check_batch c a) (\<lambda>st.
      bind_res (check_deadline c inp st) (\<lambda>st. handle_received c inp (sync_store (inStoreAfter inp) st))))"
    by (rule out_all_mono [OF after_answer_acc]) (auto simp: inp_stores_def acc_def)
  with rest assms(2) have "\<exists>es. psEffects st' = psEffects a @ es"
    using a by (auto simp: pull_iteration_def)
  ultimately show ?thesis by auto
qed

section \<open>What a record added to the batch leaves behind\<close>

lemma store_record_InrD:
  assumes "store_record c inp k x st = Inr st'"
  shows "psRecords st' = psRecords st" and "totalRecords st' = totalRecords st"
    and "cdcRecordsStorage st = Some s \<Longrightarrow>
      \<exists>s'. store_Set (cPebble c) (inHeap inp) s k x = Inr s' \<and> cdcRecordsStorage st' = Some s'"
  using assms by (auto simp: store_record_def fail_def split: option.splits sum.splits store_error.splits)

lemma count_record_InrD:
  assumes "count_record c inp st = Inr st'"
  shows "sent (psRecords st') = sent (psRecords st)" and "cdcRecordsStorage st' = cdcRecordsStorage st"
    and "totalRecords st' = totalRecords st + 1"
  using assms
  by (auto simp: count_record_def SignalAsNotEmpty_def Let_def split: if_split_asm sum.splits)

lemma addRecordWithKey_InrD:
  assumes "addRecordWithKey c inp k x st = Inr st'"
  shows "sent (psRecords st') = sent (psRecords st) @ [x]" and "totalRecords st' = totalRecords st + 1"
    and "cdcRecordsStorage st = Some s \<Longrightarrow>
      \<exists>s'. store_Set (cPebble c) (inHeap inp) s k x = Inr s' \<and> cdcRecordsStorage st' = Some s'"
proof -
  from assms obtain st1 st2 where 1: "store_record c inp k x st = Inr st1" and 2: "send_record inp x st1 = Inr st2"
    and 3: "count_record c inp st2 = Inr st'"
    by (auto simp: addRecordWithKey_def res_iff)
  from send_record_Inr [OF 2] obtain r where r: "st2 = st1\<lparr>psRecords := r\<rparr>"
    "AddRecord (inNowAfter inp) (inWait inp) (psRecords st1) x = Added r" by blast
  note all = store_record_InrD [OF 1] AddRecord_fields(1) [OF r(2)] count_record_InrD [OF 3] r(1)
  show "sent (psRecords st') = sent (psRecords st) @ [x]" and "totalRecords st' = totalRecords st + 1"
    using all(1,2,4,5,7,8) by simp_all
  show "\<exists>s'. store_Set (cPebble c) (inHeap inp) s k x = Inr s' \<and> cdcRecordsStorage st' = Some s'"
    if "cdcRecordsStorage st = Some s"
    using all(3) [OF that] all(6,8) by simp
qed

section \<open>A whole pull\<close>

lemma pull_deferred_signals:
  assumes "pull_inv st"
  shows "\<exists>st'. pull_deferred c st = Inr st' \<and> sent (psRecords st') = sent (psRecords st) \<and>
     WaitAndCheckEmpty (psRecords st') = Some (totalRecords st = 0)"
proof (cases "totalRecords st = 0")
  case True
  then have i: "stream_inv (psRecords st)" "\<not> emptySet (psRecords st)" using assms by (simp_all add: pull_inv_def)
  then have "streamEmpty (psRecords st)" by (simp add: stream_inv_def)
  with Signal_ok(1) [OF i] show ?thesis using True
    by (simp add: pull_deferred_def WaitAndCheckEmpty_def split: option.split)
next
  case False
  then show ?thesis using assms
    by (auto simp: pull_deferred_def pull_inv_def stream_inv_def WaitAndCheckEmpty_def split: option.split)
qed

lemma acc_loop:
  assumes "0 < totalRecords st" and "pull_loop c inps st = Inr st' \<or> pull_loop c inps st = Inl (Returned err st')"
  shows "\<exists>es. psEffects st' = psEffects st @ es \<and> clientXLogPos st \<le> clientXLogPos st' \<and>
     (\<forall>v. SentStandby v \<in> set es \<longrightarrow> v \<in> insert (consumedOffset st) (\<Union> (inp_stores ` set inps))) \<and>
     (\<forall>v. SetLastOffset v \<notin> set es) \<and> consumedOffset st' \<in> insert (consumedOffset st) (\<Union> (inp_stores ` set inps))"
  using assms
proof (induction inps arbitrary: st)
  case (Cons inp inps)
  let ?K = "insert (consumedOffset st) (inp_stores inp)"
  have one: "\<exists>es. psEffects st1 = psEffects st @ es \<and> clientXLogPos st \<le> clientXLogPos st1 \<and> 0 < totalRecords st1 \<and>
     (\<forall>v. SentStandby v \<in> set es \<longrightarrow> v \<in> ?K) \<and> (\<forall>v. SetLastOffset v \<notin> set es) \<and> consumedOffset st1 \<in> ?K"
    if "acc_end ?K st st1" for st1
    using that Cons.prems(1) unfolding acc_def settable_def by fastforce
  note acc = pull_iteration_acc [of st inp c]
  show ?case
  proof (cases "pull_iteration c inp st")
    case (Inl e)
    with Cons.prems(2) have e: "e = Returned err st'" by simp
    have "acc_end ?K st st'" using Inl acc unfolding e by simp
    from one [OF this] show ?thesis by fastforce
  next
    case (Inr st1)
    with acc have st1: "acc_end ?K st st1" by simp
    from one [OF st1] obtain es where es: "psEffects st1 = psEffects st @ es" "clientXLogPos st \<le> clientXLogPos st1"
      "0 < totalRecords st1" "\<forall>v. SentStandby v \<in> set es \<longrightarrow> v \<in> ?K" "\<forall>v. SetLastOffset v \<notin> set es" "consumedOffset st1 \<in> ?K"
      by blast
    have "pull_loop c inps st1 = Inr st' \<or> pull_loop c inps st1 = Inl (Returned err st')" using Cons.prems(2) Inr by simp
    from Cons.IH [OF es(3) this] obtain es' where es': "psEffects st' = psEffects st1 @ es'"
      "clientXLogPos st1 \<le> clientXLogPos st'"
      "\<forall>v. SentStandby v \<in> set es' \<longrightarrow> v \<in> insert (consumedOffset st1) (\<Union> (inp_stores ` set inps))"
      "\<forall>v. SetLastOffset v \<notin> set es'" "consumedOffset st' \<in> insert (consumedOffset st1) (\<Union> (inp_stores ` set inps))"
      by blast
    show ?thesis
      using es es' by (intro exI [of _ "es @ es'"]) auto
  qed
qed auto

section \<open>The end of a batch\<close>

lemma pull_loop_append: "pull_loop c (xs @ ys) st = bind_res (pull_loop c xs st) (pull_loop c ys)"
proof (induction xs arbitrary: st)
  case (Cons x xs)
  then show ?case by (cases "pull_iteration c x st") simp_all
qed simp

lemma pull_loop_keeps:
  "pull_loop c inps st = Inr st' \<Longrightarrow> totalRecords st \<le> totalRecords st' \<and> (waitingForCommit st \<longrightarrow> waitingForCommit st')"
proof (induction inps arbitrary: st)
  case (Cons inp inps)
  then obtain st1 where 1: "pull_iteration c inp st = Inr st1" "pull_loop c inps st1 = Inr st'"
    by (cases "pull_iteration c inp st") simp_all
  have "acc_end (insert (consumedOffset st) (inp_stores inp)) st st1" using pull_iteration_acc [of st inp c] 1(1) by simp
  with Cons.IH [OF 1(2)] show ?case by (auto simp: acc_def)
qed simp

text \<open>With records in the batch, the keepalive answer only sends, and fails only if sending does.\<close>

lemma answer_keepalive_nonempty:
  assumes "0 < totalRecords st" and "answer_keepalive inp st = Inr a"
  shows "totalRecords a = totalRecords st \<and> nextRecordDeadline a = nextRecordDeadline st"
  using assms by (auto simp: answer_keepalive_def sendStandbyAfterReplLock_def fail_def split: if_splits option.splits)

lemma answer_keepalive_sends:
  assumes "0 < totalRecords st" and "inStandbyErr inp = None"
  shows "\<exists>a. answer_keepalive inp st = Inr a \<and> psSource a = psSource st \<and> psRecords a = psRecords st \<and>
     totalRecords a = totalRecords st \<and> waitingForCommit a = waitingForCommit st \<and> nextRecordDeadline a = nextRecordDeadline st"
  using assms by (simp add: answer_keepalive_def sendStandbyAfterReplLock_def)

lemma check_deadline_waits:
  "check_deadline c inp st = Inr st' \<Longrightarrow> totalRecords st \<noteq> 0 \<Longrightarrow> nextRecordDeadline st < inNow inp \<Longrightarrow> waitingForCommit st'"
  by (auto simp: check_deadline_def Let_def split: if_splits)

text \<open>Outside of a transaction, an iteration that finds a reason to end the batch ends it.\<close>

lemma iteration_returns:
  assumes "0 < totalRecords st" and "inStandbyErr inp = None" and "commitLock (psSource st) = None"
    and "nextRecordDeadline st < inNow inp \<or> uint (MaxBatchSize (cReq c)) \<le> totalRecords st \<or> waitingForCommit st"
  shows "\<exists>st'. pull_iteration c inp st = Inl (Returned None st') \<and> psRecords st' = psRecords st \<and> totalRecords st' = totalRecords st"
proof -
  obtain a where a: "answer_keepalive inp (sync_store (inStoreBefore inp) st) = Inr a" "psSource a = psSource st"
      "psRecords a = psRecords st" "totalRecords a = totalRecords st" "waitingForCommit a = waitingForCommit st"
      "nextRecordDeadline a = nextRecordDeadline st"
    using answer_keepalive_sends [of "sync_store (inStoreBefore inp) st" inp] assms(1,2) by auto
  with assms show ?thesis by (auto simp: pull_iteration_def check_batch_def check_deadline_def)
qed

lemma deadline_waits:
  assumes "0 < totalRecords st" and "nextRecordDeadline st < inNow inp" and "pull_iteration c inp st = Inr st'"
  shows "waitingForCommit st'"
proof -
  from assms(3) obtain a b where a: "answer_keepalive inp (sync_store (inStoreBefore inp) st) = Inr a"
    and b: "check_batch c a = Inr b"
    and d: "bind_res (check_deadline c inp b) (\<lambda>st. handle_received c inp (sync_store (inStoreAfter inp) st)) = Inr st'"
    unfolding pull_iteration_def by (auto simp: res_iff)
  have "0 < totalRecords a" "nextRecordDeadline a < inNow inp"
    using answer_keepalive_nonempty [OF _ a] assms(1,2) by simp_all
  moreover have "b = a" using b by (simp add: check_batch_def split: if_splits)
  moreover obtain f where f: "check_deadline c inp b = Inr f" "handle_received c inp (sync_store (inStoreAfter inp) f) = Inr st'"
    using d by (cases "check_deadline c inp b") simp_all
  ultimately have w: "waitingForCommit f" using check_deadline_waits [OF f(1)] by simp
  let ?f = "sync_store (inStoreAfter inp) f"
  have "acc_before {consumedOffset ?f} ?f ?f" by (simp add: acc_before_def acc_def)
  from handle_received_acc [OF this, of c inp] f w show ?thesis by (simp add: acc_def)
qed

section \<open>Properties\<close>

definition req_sample :: pull_req where
  "req_sample = \<lparr>MaxBatchSize = 1, IdleTimeout = 60, LastOffsetID = 0,
     reqTableNameSchemaMapping = [''t'' \<mapsto> schema_sample], pkmEmptyBatchThrottleThresholdSeconds = 60\<rparr>"

definition ctx_sample :: "(PgItems, (bytes, bytes) gomap) pull_ctx" where
  "ctx_sample = \<lparr>cOps = PgItems_ops, cProcessor = pgProcessor, cPebble = tiny_pebble, cSha256 = id, cReq = req_sample\<rparr>"

definition input_sample :: "string \<Rightarrow> pull_input" where
  "input_sample d = \<lparr>inNow = 1, inNowAfter = 2, inStoreBefore = None, inStoreStandby = None, inStoreAfter = None,
     inStandbyErr = None, inTimeoutStandbyErr = None, inSetOffsetErr = None, inMessageOffsetErr = None, inReceived = (if d = [] then RecvTimeout else CopyData 9 (XLogData (Inr (40, d)))),
     inEnv = env_sample, inHeap = 0, inWait = []\<rparr>"

definition state_sample :: "(PgItems, (bytes, bytes) gomap) pull_state" where
  "state_sample = \<lparr>psSource = source_sample\<lparr>commitLock := Some \<lparr>bmFinalLSN = 40, bmCommitTime = 9, bmXid = 3\<rparr>\<rparr>,
     psRecords = NewCDCStream 4, cdcRecordsStorage = Some store_sample, totalRecords = 0, totalFetchedBytes = 0,
     clientXLogPos = 7, consumedOffset = 0, waitingForCommit = False, nextRecordDeadline = 60,
     pkmRequiresResponse = False, largeTxnLastLogged = None, lastEmptyBatchPkmSentTime = 0,
     warnedReplIdentTables = {}, psEffects = []\<rparr>"

text \<open>
  C2: a pull on a new stream that returns, with or without an error, has counted exactly the row
  records it sent; without an error it does not return inside a transaction of the source; and
  its deferred calls do not panic on a closed channel and tell the reader of the stream
  whether the batch is empty.
\<close>

theorem pull_returns_safely:
  assumes "pull_start c standbyErr newStore now off src (NewCDCStream n) = Inr st0"
    and "pull_loop c inps st0 = Inl (Returned err st)"
  shows "totalRecords st = int (length (filter is_row (sent (psRecords st)))) \<and>
     (err = None \<longrightarrow> commitLock (psSource st) = None) \<and>
     (\<exists>st'. pull_deferred c st = Inr st' \<and> sent (psRecords st') = sent (psRecords st) \<and>
        WaitAndCheckEmpty (psRecords st') = Some (totalRecords st = 0))"
proof -
  have "\<not> emptySet (NewCDCStream n)" "sent (NewCDCStream n) = []" by (simp_all add: NewCDCStream_def)
  from pull_start_inv(1) [OF stream_inv_new this assms(1)] have "pull_inv st0" .
  from pull_loop_step [OF this, of c inps] assms(2) have "exit_ok (Returned err st)" by simp
  then have "pull_inv st" "err = None \<longrightarrow> commitLock (psSource st) = None" by (simp_all add: exit_ok_def)
  then show ?thesis using pull_deferred_signals [of st c] by (simp add: pull_inv_def)
qed

theorem pull_returns_safely_witness:
  "\<exists>st0 st st'. pull_start ctx_sample None None 0 0 source_sample (NewCDCStream 4) = Inr st0 \<and>
     pull_loop ctx_sample (map input_sample [''B'', ''I'', ''C'', []]) st0 = Inl (Returned None st) \<and>
     totalRecords st = 1 \<and> commitLock (psSource st) = None \<and>
     pull_deferred ctx_sample st = Inr st' \<and> WaitAndCheckEmpty (psRecords st') = Some False"
proof -
  have "case bind_res (pull_start ctx_sample None None 0 0 source_sample (NewCDCStream 4))
      (pull_loop ctx_sample (map input_sample [''B'', ''I'', ''C'', []])) of
        Inl (Returned None st) \<Rightarrow> totalRecords st = 1 | _ \<Rightarrow> False"
    by code_simp
  then obtain st0 st where 0: "pull_start ctx_sample None None 0 0 source_sample (NewCDCStream 4) = Inr st0"
    and st: "pull_loop ctx_sample (map input_sample [''B'', ''I'', ''C'', []]) st0 = Inl (Returned None st)"
    and n: "totalRecords st = 1"
    by (auto simp: pull_start_def ctx_sample_def req_sample_def Let_def simp del: list.map
      split: sum.splits pull_exit.splits option.splits)
  from pull_returns_safely [OF 0 st] n have "commitLock (psSource st) = None"
    "\<exists>st'. pull_deferred ctx_sample st = Inr st' \<and> WaitAndCheckEmpty (psRecords st') = Some False" by auto
  with 0 st n show ?thesis by blast
qed

text \<open>
  C3: once the batch holds a record, every offset that the loop acknowledges to the source is the
  consumed offset it started with or one that the sync side stored, not the position it has read
  up to; it does not move the consumed and the last offset itself, and the position it has reached never
  goes back. (The comment at the declaration of \<^verbatim>\<open>clientXLogPos\<close> says that each standby message
  acknowledges that position.)
\<close>

theorem nonempty_batch_acknowledges_consumed:
  assumes "0 < totalRecords st" and "pull_loop c inps st = Inr st' \<or> pull_loop c inps st = Inl (Returned err st')"
  shows "\<exists>es. psEffects st' = psEffects st @ es \<and> clientXLogPos st \<le> clientXLogPos st' \<and>
     (\<forall>v. SentStandby v \<in> set es \<longrightarrow> v \<in> insert (consumedOffset st) (\<Union> (inp_stores ` set inps))) \<and>
     (\<forall>v. SetLastOffset v \<notin> set es) \<and> consumedOffset st' \<in> insert (consumedOffset st) (\<Union> (inp_stores ` set inps))"
  using acc_loop [OF assms] .

theorem nonempty_batch_acknowledges_consumed_witness:
  "\<exists>st'. pull_loop ctx_sample [(input_sample [])\<lparr>inStoreAfter := Some 5\<rparr>] (state_sample\<lparr>totalRecords := 1\<rparr>) = Inr st' \<and>
     psEffects st' = [SentStandby 5] \<and> consumedOffset st' \<in> {0, 5} \<and> clientXLogPos state_sample \<le> clientXLogPos st'"
proof -
  let ?st = "state_sample\<lparr>totalRecords := 1\<rparr>" and ?i = "(input_sample [])\<lparr>inStoreAfter := Some 5\<rparr>"
  have "case pull_loop ctx_sample [?i] ?st of
      Inr st' \<Rightarrow> psEffects st' = [SentStandby 5] | _ \<Rightarrow> False"
    by code_simp
  then obtain st' where st': "pull_loop ctx_sample [?i] ?st = Inr st'" and e: "psEffects st' = [SentStandby 5]"
    by (auto split: sum.splits)
  from nonempty_batch_acknowledges_consumed [of ?st ctx_sample "[?i]" st'] st'
  have "clientXLogPos ?st \<le> clientXLogPos st'" "consumedOffset st' \<in> insert (consumedOffset ?st) (inp_stores ?i)" by auto
  with st' e show ?thesis by (auto simp: state_sample_def inp_stores_def input_sample_def)
qed

text \<open>
  C16: in any iteration, an offset is acknowledged only if it is the consumed offset at the start,
  one that the sync side stored meanwhile, or one that the iteration has set as the last offset. The latter
  happens only for a batch without records, to the position reached before the
  iteration or after it, and moves the offset forward. Afterwards the consumed offset is again one of these. A
  keepalive that requires a response gets one, unless the iteration fails.
\<close>

theorem iteration_acknowledges:
  assumes "pull_iteration c inp st = Inr st' \<and> err = None \<or> pull_iteration c inp st = Inl (Returned err st')"
  shows "\<exists>es. psEffects st' = psEffects st @ es \<and>
     (\<forall>v. SentStandby v \<in> set es \<longrightarrow> v \<in> insert (consumedOffset st) (inp_stores inp) \<or> SetLastOffset v \<in> set es) \<and>
     (\<forall>v. SetLastOffset v \<in> set es \<longrightarrow> totalRecords st \<le> 0 \<and>
        (v = sint (clientXLogPos st) \<or> v = sint (clientXLogPos st')) \<and>
        (\<exists>w \<in> {sint (clientXLogPos st), consumedOffset st} \<union> inp_stores inp. w < v)) \<and>
     (consumedOffset st' \<in> insert (consumedOffset st) (inp_stores inp) \<or> SetLastOffset (consumedOffset st') \<in> set es) \<and>
     (pkmRequiresResponse st \<and> err = None \<longrightarrow> (\<exists>v. SentStandby v \<in> set es)) \<and>
     totalRecords st \<le> totalRecords st' \<and> clientXLogPos st \<le> clientXLogPos st'"
proof -
  have "acc_end (insert (consumedOffset st) (inp_stores inp)) st st'"
    using pull_iteration_acc [of st inp c] assms by auto
  then obtain es where es: "psEffects st' = psEffects st @ es"
    "\<forall>v. SentStandby v \<in> set es \<longrightarrow> v \<in> insert (consumedOffset st) (inp_stores inp) \<or> SetLastOffset v \<in> set es"
    "\<forall>v. SetLastOffset v \<in> set es \<longrightarrow> settable (insert (consumedOffset st) (inp_stores inp)) {sint (clientXLogPos st), sint (clientXLogPos st')} st v"
    "consumedOffset st' \<in> insert (consumedOffset st) (inp_stores inp) \<or> SetLastOffset (consumedOffset st') \<in> set es"
    "totalRecords st \<le> totalRecords st'" "clientXLogPos st \<le> clientXLogPos st'"
    unfolding acc_def by blast
  moreover have "pkmRequiresResponse st \<and> err = None \<longrightarrow> (\<exists>v. SentStandby v \<in> set es)"
    using pull_iteration_answers [of st c inp st'] assms es(1) by auto
  ultimately show ?thesis by (intro exI [of _ es]) (auto simp: settable_def)
qed

theorem iteration_acknowledges_witness:
  "\<exists>st'. pull_iteration ctx_sample (input_sample []) (state_sample\<lparr>pkmRequiresResponse := True\<rparr>) = Inr st' \<and>
     psEffects st' = [SetLastOffset 7, SentStandby 7, SentStandby 7] \<and> consumedOffset st' \<in> {0, 7} \<and> 0 \<le> totalRecords st'"
proof -
  let ?st = "state_sample\<lparr>pkmRequiresResponse := True\<rparr>"
  have "case pull_iteration ctx_sample (input_sample []) ?st of
      Inr st' \<Rightarrow> psEffects st' = [SetLastOffset 7, SentStandby 7, SentStandby 7] | _ \<Rightarrow> False"
    by code_simp
  then obtain st' where st': "pull_iteration ctx_sample (input_sample []) ?st = Inr st'"
    and e: "psEffects st' = [SetLastOffset 7, SentStandby 7, SentStandby 7]"
    by (auto split: sum.splits)
  from iteration_acknowledges [of ctx_sample "input_sample []" ?st st' None] st' e
  show ?thesis by (auto simp: state_sample_def inp_stores_def input_sample_def)
qed

text \<open>
  C5: an update of a table without full replica identity, whose key has a latest record; \<open>m\<close> is the map of the
  latest records, which the store simulates. The record that is sent has every column of the update, and
  for the others the value that the store has kept: that of the latest record if it
  is in memory, and also on disk, except that NULL and the empty value are not told apart
  there. Exactly the columns of the latest record are no longer unchanged TOAST columns, unless the update has them; and the
  completed record is the latest one of its key afterwards.
\<close>

theorem update_takes_missing_columns:
  assumes "pebble_laws (cPebble c) kv" and "cOps c = PgItems_ops"
    and "reqTableNameSchemaMapping (cReq c) d = Some sch" and "\<not> IsReplicaIdentityFull sch"
    and "RecToTablePKey (cSha256 c) PgItems_ops (reqTableNameSchemaMapping (cReq c)) (UpdateRecord oi ni toast s d b) = Inr key"
    and "cdcRecordsStorage st = Some store" and "store_sim (cPebble c) kv store m" and "m key = Some latest"
    and "gomap_ok (GetItems PgItems_ops latest)" and "d \<noteq> []"
    and "handle_update c inp (UpdateRecord oi ni toast s d b) st = Inr st'"
  shows "\<exists>ni' store'.
     (\<forall>col. case map_of ni col of
         Some v \<Rightarrow> map_of ni' col = Some v
       | None \<Rightarrow> rel_option (kept_value store key) (map_of (GetItems PgItems_ops latest) col) (map_of ni' col)) \<and>
     (let rec = UpdateRecord oi ni' {col \<in> toast. map_of ni col \<noteq> None \<or> map_of (GetItems PgItems_ops latest) col = None} s d b in
      sent (psRecords st') = sent (psRecords st) @ [rec] \<and>
      cdcRecordsStorage st' = Some store' \<and> store_sim (cPebble c) kv store' (m(key \<mapsto> rec)))"
proof -
  let ?x = "UpdateRecord oi ni toast s d b"
  note sim = conjI [OF assms(1,7)]
  obtain got where got: "store_Get (cPebble c) store key = Inr got"
    and add0: "addRecordWithKey c inp key (backfill_update PgItems_ops got ?x) st = Inr st'"
    using assms by (auto simp: handle_update_def isFullReplica_def record_key_def latest_record_def res_iff
        simp del: backfill_update.simps split: sum.splits)
  from cdcs.get_known [OF sim assms(8) got] obtain l where l: "got = Some l" "kept store key latest l" by blast
  let ?l = "GetItems PgItems_ops l" and ?y = "backfill_update PgItems_ops (Some l) ?x"
  note items = kept_items [OF l(2)]
  have ok: "gomap_ok ?l" using items(2) assms(9) .
  have add: "addRecordWithKey c inp key ?y st = Inr st'" using add0 l(1) by simp
  from addRecordWithKey_InrD(3) [OF add assms(6)] obtain store' where
    set: "store_Set (cPebble c) (inHeap inp) store key ?y = Inr store'" and st': "cdcRecordsStorage st' = Some store'" by blast
  have "TableName key = d" using RecToTablePKey_table [OF assms(5)] by simp
  then have after: "store_sim (cPebble c) kv store' (m(key \<mapsto> ?y))"
    using cdcs.put_sim [OF sim set] assms(10) by simp
  have y: "?y = UpdateRecord oi (fst (PgItems_UpdateIfNotExists ni ?l)) (toast - set (snd (PgItems_UpdateIfNotExists ni ?l))) s d b"
    by (simp add: PgItems_ops_def case_prod_unfold Let_def)
  have "map_of ?l col = None \<longleftrightarrow> map_of (GetItems PgItems_ops latest) col = None" for col
    using items(1) [of col] by (cases rule: option.rel_cases) simp_all
  then have toast: "toast - set (snd (PgItems_UpdateIfNotExists ni ?l)) =
      {col \<in> toast. map_of ni col \<noteq> None \<or> map_of (GetItems PgItems_ops latest) col = None}"
    using PgItems_updated_cols [OF ok, of ni] by auto
  show ?thesis
  proof (intro exI conjI allI)
    show "case map_of ni col of Some v \<Rightarrow> map_of (fst (PgItems_UpdateIfNotExists ni ?l)) col = Some v
       | None \<Rightarrow> rel_option (kept_value store key) (map_of (GetItems PgItems_ops latest) col)
           (map_of (fst (PgItems_UpdateIfNotExists ni ?l)) col)" for col
      using items(1) [of col] by (simp add: PgItems_update_cols_at [OF ok] split: option.split)
  qed (use y toast st' after addRecordWithKey_InrD(1) [OF add] in \<open>simp add: Let_def\<close>)
qed

definition latest_sample :: "PgItems Record" where
  "latest_sample = InsertRecord [(''id'', Some ''7''), (''note'', Some ''long'')] ''public.t'' ''t'' 0 zero_BaseRecord"

definition toast_store :: "(PgItems, (bytes, bytes) gomap) CDCStore" where
  "toast_store = store_sample\<lparr>memThresholdBytes := 100,
     numRecordsSwitchThreshold := 100, inMemoryRecords := Some [(key_sample ''7'', latest_sample)]\<rparr>"

definition toast_sample :: "(PgItems, (bytes, bytes) gomap) pull_state" where
  "toast_sample = state_sample\<lparr>cdcRecordsStorage := Some toast_store\<rparr>"

lemma toast_sim: "store_sim (cPebble ctx_sample) map_of toast_store [key_sample ''7'' \<mapsto> latest_sample]"
  by (simp add: store_sim_def toast_store_def store_sample_def mem_records_def disk_sim_def disk_abs_def)

theorem update_takes_missing_columns_witness:
  "\<exists>st' ni'. handle_update ctx_sample (input_sample [])
       (UpdateRecord [] [(''id'', Some ''7'')] {''note''} ''public.t'' ''t'' zero_BaseRecord) toast_sample = Inr st' \<and>
     sent (psRecords st') = [UpdateRecord [] ni' {} ''public.t'' ''t'' zero_BaseRecord] \<and>
     map_of ni' ''note'' = Some (Some ''long'')"
proof -
  let ?x = "UpdateRecord [] [(''id'', Some ''7'')] {''note''} ''public.t'' ''t'' zero_BaseRecord"
  have "case handle_update ctx_sample (input_sample []) ?x toast_sample of Inr st' \<Rightarrow> True | _ \<Rightarrow> False"
    by code_simp
  then obtain st' where st': "handle_update ctx_sample (input_sample []) ?x toast_sample = Inr st'"
    by (auto split: sum.splits)
  have k: "RecToTablePKey (cSha256 ctx_sample) PgItems_ops (reqTableNameSchemaMapping (cReq ctx_sample)) ?x = Inr (key_sample ''7'')"
    by code_simp
  have "pebble_laws (cPebble ctx_sample) map_of" by (simp add: ctx_sample_def tiny_laws)
  note run = update_takes_missing_columns [OF this _ _ _ k _ toast_sim _ _ _ st', of schema_sample latest_sample]
  from run obtain ni' where ni': "sent (psRecords st') = [UpdateRecord [] ni' {} ''public.t'' ''t'' zero_BaseRecord]"
    "\<forall>col. case map_of [(''id'', Some ''7'')] col of Some v \<Rightarrow> map_of ni' col = Some v
       | None \<Rightarrow> rel_option (kept_value toast_store (key_sample ''7'')) (map_of (GetItems PgItems_ops latest_sample) col) (map_of ni' col)"
    by (auto simp: ctx_sample_def req_sample_def schema_sample_def toast_sample_def state_sample_def
      latest_sample_def NewCDCStream_def Let_def cong: conj_cong)
  have "rel_option (kept_value toast_store (key_sample ''7'')) (Some (Some ''long'')) (map_of ni' ''note'')"
    using spec [OF ni'(2), of "''note''"] by (simp add: latest_sample_def)
  then have "map_of ni' ''note'' = Some (Some ''long'')"
    by (cases "map_of ni' ''note''") (simp_all add: kept_value_def in_memory_def toast_store_def mem_records_def)
  with st' ni'(1) show ?thesis by blast
qed

text \<open>
  C17: a delete from a table without full replica identity takes all items of the latest record of
  its key, as the store has kept them (on disk, NULL and the empty value are not told apart). It takes the unchanged
  TOAST columns too if that record is an update; otherwise it
  carries the mark of a delete that is not backfilled, also when an insert has given it all its
  items. The latest records of all keys stay.
\<close>

theorem delete_takes_latest_items:
  assumes "pebble_laws (cPebble c) kv" and "cOps c = PgItems_ops"
    and "reqTableNameSchemaMapping (cReq c) d = Some sch" and "\<not> IsReplicaIdentityFull sch"
    and "RecToTablePKey (cSha256 c) PgItems_ops (reqTableNameSchemaMapping (cReq c)) (DeleteRecord i u s d b) = Inr key"
    and "cdcRecordsStorage st = Some store" and "store_sim (cPebble c) kv store m" and "m key = Some latest"
    and "handle_delete c inp (DeleteRecord i u s d b) st = Inr st'"
  shows "\<exists>items store'.
     (\<forall>col. rel_option (kept_value store key) (map_of (GetItems PgItems_ops latest) col) (map_of items col)) \<and>
     cdcRecordsStorage st' = Some store' \<and> store_sim (cPebble c) kv store' m \<and>
     sent (psRecords st') = sent (psRecords st) @ [DeleteRecord items
       (case latest of UpdateRecord _ _ toast _ _ _ \<Rightarrow> toast | _ \<Rightarrow> {''_peerdb_not_backfilled_delete''}) s d b]"
proof -
  let ?x = "DeleteRecord i u s d b"
  note sim = conjI [OF assms(1,7)]
  obtain got where got: "store_Get (cPebble c) store key = Inr got"
    and add0: "addRecordWithKey c inp zero_TableWithPkey (backfill_delete PgItems_ops got ?x) st = Inr st'"
    using assms by (auto simp: handle_delete_def isFullReplica_def record_key_def latest_record_def res_iff
        simp del: backfill_delete.simps split: sum.splits)
  from cdcs.get_known [OF sim assms(8) got] obtain l where l: "got = Some l" "kept store key latest l" by blast
  let ?y = "backfill_delete PgItems_ops (Some l) ?x"
  have add: "addRecordWithKey c inp zero_TableWithPkey ?y st = Inr st'" using add0 l(1) by simp
  from addRecordWithKey_InrD(3) [OF add assms(6)] obtain store' where
    set: "store_Set (cPebble c) (inHeap inp) store zero_TableWithPkey ?y = Inr store'"
    and st': "cdcRecordsStorage st' = Some store'" by blast
  have "store_sim (cPebble c) kv store' m"
    using cdcs.put_sim [OF sim set] by (simp add: zero_TableWithPkey_def)
  moreover have "?y = DeleteRecord (GetItems PgItems_ops l)
      (case latest of UpdateRecord _ _ toast _ _ _ \<Rightarrow> toast | _ \<Rightarrow> {''_peerdb_not_backfilled_delete''}) s d b"
    using l(2) by (cases latest; cases l) (simp_all add: kept_def not_backfilled_delete_def split: if_splits)
  ultimately show ?thesis using st' addRecordWithKey_InrD(1) [OF add] kept_items(1) [OF l(2)] by auto
qed

theorem delete_takes_latest_items_witness:
  "\<exists>st' items. handle_delete ctx_sample (input_sample []) (DeleteRecord [(''id'', Some ''7'')] {} ''public.t'' ''t'' zero_BaseRecord)
       toast_sample = Inr st' \<and>
     sent (psRecords st') = [DeleteRecord items {''_peerdb_not_backfilled_delete''} ''public.t'' ''t'' zero_BaseRecord] \<and>
     map_of items ''note'' = Some (Some ''long'')"
proof -
  let ?x = "DeleteRecord [(''id'', Some ''7'')] {} ''public.t'' ''t'' zero_BaseRecord"
  have "case handle_delete ctx_sample (input_sample []) ?x toast_sample of Inr st' \<Rightarrow> True | _ \<Rightarrow> False"
    by code_simp
  then obtain st' where st': "handle_delete ctx_sample (input_sample []) ?x toast_sample = Inr st'"
    by (auto split: sum.splits)
  have k: "RecToTablePKey (cSha256 ctx_sample) PgItems_ops (reqTableNameSchemaMapping (cReq ctx_sample)) ?x = Inr (key_sample ''7'')"
    by code_simp
  have "pebble_laws (cPebble ctx_sample) map_of" by (simp add: ctx_sample_def tiny_laws)
  note run = delete_takes_latest_items [OF this _ _ _ k _ toast_sim _ st', of schema_sample latest_sample]
  from run obtain items where items: "sent (psRecords st') = [DeleteRecord items {''_peerdb_not_backfilled_delete''} ''public.t'' ''t'' zero_BaseRecord]"
    "\<forall>col. rel_option (kept_value toast_store (key_sample ''7'')) (map_of (GetItems PgItems_ops latest_sample) col) (map_of items col)"
    by (auto simp: ctx_sample_def req_sample_def schema_sample_def toast_sample_def state_sample_def
      latest_sample_def NewCDCStream_def)
  have "rel_option (kept_value toast_store (key_sample ''7'')) (Some (Some ''long'')) (map_of items ''note'')"
    using spec [OF items(2), of "''note''"] by (simp add: latest_sample_def)
  then have "map_of items ''note'' = Some (Some ''long'')"
    by (cases "map_of items ''note''") (simp_all add: kept_value_def in_memory_def toast_store_def mem_records_def)
  with st' items(1) show ?thesis by blast
qed

text \<open>
  C10: a batch with records ends. Outside of a transaction, an iteration after the idle deadline, or
  with a full batch, or with a commit waited for, returns without an error and with the records
  as they are. In a transaction, the loop goes on, and once the idle deadline has passed or the batch is full, the first
  iteration that starts outside of it returns. The keepalive answers must not fail to be sent.
\<close>

theorem idle_batch_ends:
  assumes "0 < totalRecords st" and "inStandbyErr inp = None"
  shows "(commitLock (psSource st) = None \<and>
       (nextRecordDeadline st < inNow inp \<or> uint (MaxBatchSize (cReq c)) \<le> totalRecords st \<or> waitingForCommit st) \<longrightarrow>
       (\<exists>st'. pull_iteration c inp st = Inl (Returned None st') \<and> psRecords st' = psRecords st \<and> totalRecords st' = totalRecords st)) \<and>
     ((nextRecordDeadline st < inNow inp \<or> uint (MaxBatchSize (cReq c)) \<le> totalRecords st) \<and>
       pull_loop c (inp # inps) st = Inr st1 \<and> commitLock (psSource st1) = None \<and> inStandbyErr inp1 = None \<longrightarrow>
       (\<exists>st'. pull_loop c (inp # inps @ inp1 # later) st = Inl (Returned None st') \<and> psRecords st' = psRecords st1 \<and>
          totalRecords st \<le> totalRecords st'))"
proof (intro conjI impI; (elim conjE)?)
  assume l: "commitLock (psSource st) = None"
    and why: "nextRecordDeadline st < inNow inp \<or> uint (MaxBatchSize (cReq c)) \<le> totalRecords st \<or> waitingForCommit st"
  show "\<exists>st'. pull_iteration c inp st = Inl (Returned None st') \<and> psRecords st' = psRecords st \<and> totalRecords st' = totalRecords st"
    by (rule iteration_returns [OF assms l why])
next
  assume why: "nextRecordDeadline st < inNow inp \<or> uint (MaxBatchSize (cReq c)) \<le> totalRecords st"
    and run: "pull_loop c (inp # inps) st = Inr st1" and l: "commitLock (psSource st1) = None" and e: "inStandbyErr inp1 = None"
  from run obtain st0 where 0: "pull_iteration c inp st = Inr st0" "pull_loop c inps st0 = Inr st1"
    by (cases "pull_iteration c inp st") simp_all
  have n: "totalRecords st \<le> totalRecords st1" using pull_loop_keeps [OF run] by simp
  then have "nextRecordDeadline st1 < inNow inp1 \<or> uint (MaxBatchSize (cReq c)) \<le> totalRecords st1 \<or> waitingForCommit st1"
    using why deadline_waits [OF assms(1) _ 0(1)] pull_loop_keeps [OF 0(2)] by auto
  from iteration_returns [OF _ e l this] n assms(1) obtain a where
    a: "pull_iteration c inp1 st1 = Inl (Returned None a)" "psRecords a = psRecords st1" "totalRecords a = totalRecords st1" by auto
  then have "pull_loop c (inp # inps @ inp1 # later) st = Inl (Returned None a)"
    using run pull_loop_append [of c "inp # inps" "inp1 # later" st] by simp
  with a n show "\<exists>st'. pull_loop c (inp # inps @ inp1 # later) st = Inl (Returned None st') \<and> psRecords st' = psRecords st1 \<and>
          totalRecords st \<le> totalRecords st'" by auto
qed

definition open_sample :: "(PgItems, (bytes, bytes) gomap) pull_state" where
  "open_sample = state_sample\<lparr>totalRecords := 1, nextRecordDeadline := 0\<rparr>"

definition idle_sample :: "(PgItems, (bytes, bytes) gomap) pull_state" where
  "idle_sample = state_sample\<lparr>totalRecords := 1, nextRecordDeadline := 0, psSource := source_sample\<lparr>commitLock := None\<rparr>\<rparr>"

theorem idle_batch_ends_witness:
  "(\<exists>st'. pull_loop (ctx_sample\<lparr>cReq := req_sample\<lparr>MaxBatchSize := 9\<rparr>\<rparr>) (map input_sample [[], ''C'', []]) open_sample =
      Inl (Returned None st') \<and> 1 \<le> totalRecords st') \<and>
   (\<exists>st'. pull_iteration (ctx_sample\<lparr>cReq := req_sample\<lparr>MaxBatchSize := 9\<rparr>\<rparr>) (input_sample []) idle_sample = Inl (Returned None st'))"
proof -
  let ?c = "ctx_sample\<lparr>cReq := req_sample\<lparr>MaxBatchSize := 9\<rparr>\<rparr>"
  have "case pull_loop ?c [input_sample [], input_sample ''C''] open_sample of
      Inr st1 \<Rightarrow> commitLock (psSource st1) = None | _ \<Rightarrow> False"
    by code_simp
  then obtain st1 where st1: "pull_loop ?c (input_sample [] # [input_sample ''C'']) open_sample = Inr st1"
    "commitLock (psSource st1) = None"
    by (auto simp del: pull_loop.simps split: sum.splits)
  have h: "0 < totalRecords open_sample" "nextRecordDeadline open_sample < inNow (input_sample [])"
    "inStandbyErr (input_sample []) = None" "totalRecords open_sample = 1"
    by (simp_all add: open_sample_def input_sample_def)
  with idle_batch_ends [OF h(1) h(3), of ?c "[input_sample ''C'']" st1 "input_sample []" "[]"] st1
  have "\<exists>st'. pull_loop ?c (map input_sample [[], ''C'', []]) open_sample = Inl (Returned None st') \<and> 1 \<le> totalRecords st'"
    by auto
  moreover have "0 < totalRecords idle_sample" "commitLock (psSource idle_sample) = None"
    "nextRecordDeadline idle_sample < inNow (input_sample [])"
    by (simp_all add: idle_sample_def input_sample_def)
  with idle_batch_ends [OF _ h(3), of idle_sample ?c "[]" idle_sample "input_sample []" "[]"]
  have "\<exists>st'. pull_iteration ?c (input_sample []) idle_sample = Inl (Returned None st')" by auto
  ultimately show ?thesis by blast
qed

end
