(* ===== verification/GoInt.thy ===== *)
theory GoInt
  imports Prelude "HOL-Library.Signed_Division"
begin

text \<open>
  Go's signed integer arithmetic on words: when a sum, difference, product or quotient of
  64-bit integers is exact, the truncating division, and the three-way comparison of the
  package cmp.
\<close>

section \<open>Exact signed arithmetic\<close>

abbreviation fits64 :: "int \<Rightarrow> bool" where
  "fits64 n \<equiv> - (2 ^ 63) \<le> n \<and> n < 2 ^ 63"

lemma sint_of_int64: "fits64 n \<Longrightarrow> sint (word_of_int n :: 64 word) = n"
  by (simp add: sint_sbintrunc' signed_take_bit_int_eq_self)

lemma sint64_range: "fits64 (sint (w :: 64 word))"
  using sint_greater_eq [of w] sint_less [of w] by simp

lemma sint_arith64:
  fixes a b :: "64 word"
  shows "fits64 (sint a + sint b) \<Longrightarrow> sint (a + b) = sint a + sint b"
    and "fits64 (sint a - sint b) \<Longrightarrow> sint (a - b) = sint a - sint b"
    and "fits64 (sint a * sint b) \<Longrightarrow> sint (a * b) = sint a * sint b"
proof -
  have "a + b = word_of_int (sint a + sint b)" "a - b = word_of_int (sint a - sint b)"
    "a * b = word_of_int (sint a * sint b)" by simp_all
  then show "fits64 (sint a + sint b) \<Longrightarrow> sint (a + b) = sint a + sint b"
    and "fits64 (sint a - sint b) \<Longrightarrow> sint (a - b) = sint a - sint b"
    and "fits64 (sint a * sint b) \<Longrightarrow> sint (a * b) = sint a * sint b"
    by (simp_all only: sint_of_int64)
qed

text \<open>An unsigned 64-bit difference of signed integers is their distance.\<close>

lemma uint_diff_signed:
  fixes a b :: "64 word"
  assumes "sint a \<le> sint b"
  shows "uint (b - a) = sint b - sint a"
proof -
  have "b - a = word_of_int (sint b - sint a)" by simp
  then have "uint (b - a) = (sint b - sint a) mod 2 ^ 64"
    by (simp only: uint_word_of_int_eq take_bit_eq_mod) simp
  then show ?thesis using assms sint64_range [of a] sint64_range [of b] by (simp add: mod_pos_pos_trivial)
qed

lemma uint_diff_unsigned:
  fixes a b :: "64 word"
  assumes "uint a \<le> uint b"
  shows "uint (b - a) = uint b - uint a"
  using assms by (simp add: uint_sub_if')

section \<open>Division and comparison\<close>

definition quot :: "64 word \<Rightarrow> 64 word \<Rightarrow> 64 word" where
  "quot x y = word_of_int (sint x sdiv sint y)"

lemma sint_quot:
  assumes "0 \<le> sint x" and "0 < sint y"
  shows "sint (quot x y) = sint x div sint y"
proof -
  have "sint x sdiv sint y = sint x div sint y"
    using assms by (cases "sint x = 0") (simp_all add: signed_divide_int_def)
  moreover have "0 \<le> sint x div sint y" "sint x div sint y \<le> sint x"
    using assms zdiv_mono2 [of "sint x" 1 "sint y"] by (simp_all add: pos_imp_zdiv_nonneg_iff)
  ultimately show ?thesis
    using sint64_range [of x] unfolding quot_def by (subst sint_of_int64) simp_all
qed

definition cmp_Compare :: "int \<Rightarrow> int \<Rightarrow> int" where
  "cmp_Compare x y = (if x < y then -1 else if x > y then 1 else 0)"

lemma cmp_Compare_nonneg [simp]: "0 \<le> cmp_Compare x y \<longleftrightarrow> y \<le> x"
  by (simp add: cmp_Compare_def)

lemma cmp_Compare_neg [simp]: "cmp_Compare x y < 0 \<longleftrightarrow> x < y"
  by (simp add: cmp_Compare_def)

end
