(* ===== verification/Partition.thy ===== *)
theory Partition
  imports GoInt
begin

text \<open>
  \<^verbatim>\<open>connectors/utils/partition.go\<close>: the partitions of a table by ranges of a column. The functions
  of a \<^verbatim>\<open>PartitionHelper\<close> take it and return it updated. The random identifiers of
  \<^verbatim>\<open>uuid.NewString\<close> are a parameter: \<open>uuid n\<close> is the one drawn in the call number \<open>n\<close>. A time is its
  number of nanoseconds since 1970.
\<close>

section \<open>Data\<close>

record TID =
  BlockNumber :: "32 word"
  OffsetNumber :: "32 word"

record pgTID =
  pgBlockNumber :: "32 word"
  pgOffsetNumber :: "16 word"
  pgValid :: bool

datatype any_value =
    NilValue
  | Int64V "64 word" | Uint64V "64 word" | Int32V "32 word" | Uint32V "32 word"
  | Int16V "16 word" | Uint16V "16 word" | Int8V "8 word" | Uint8V "8 word"
  | TimeV int
  | TIDV pgTID
  | OtherV

datatype PartitionRange =
    IntRange "64 word" "64 word"
  | TimestampRange int int
  | TidRange TID TID
  | UintRange "64 word" "64 word"
  | ObjectIdRange string string
  | NullRange
  | StringRange string string bool
  | NumericRange "64 word" "64 word" bool

record ChildTableRange =
  ctTable :: string
  ctStart :: "32 word"
  ctEnd :: "32 word"

record QRepPartition =
  PartitionId :: string
  Range :: "PartitionRange option"
  FullTablePartition :: bool
  ChildTableRanges :: "ChildTableRange list"

definition FullTablePartitionID :: string where
  "FullTablePartitionID = ''full-table-partition-id''"

definition FullTablePartition_list :: "QRepPartition list" where
  "FullTablePartition_list =
     [\<lparr>PartitionId = FullTablePartitionID, Range = None, FullTablePartition = True, ChildTableRanges = []\<rparr>]"

datatype PartitionRangeType = PartitionEndRangeType | PartitionStartRangeType

record PartitionRangeForComparison =
  partitionRange :: "PartitionRange option"
  rangeTypeToCompare :: PartitionRangeType

section \<open>The start of a partition\<close>

definition TID_after :: "TID \<Rightarrow> TID" where
  "TID_after t =
     (if OffsetNumber t < 0xFFFF then t\<lparr>OffsetNumber := OffsetNumber t + 1\<rparr>
      else \<lparr>BlockNumber = BlockNumber t + 1, OffsetNumber = 0\<rparr>)"

definition adjustStartValueOfPartition :: "PartitionRange option \<Rightarrow> PartitionRange option \<Rightarrow> PartitionRange option" where
  "adjustStartValueOfPartition prevRange currentRange = (case (prevRange, currentRange) of
     (Some (IntRange _ e), Some (IntRange _ d)) \<Rightarrow> Some (IntRange (e + 1) d)
   | (Some (UintRange _ e), Some (UintRange _ d)) \<Rightarrow> Some (UintRange (e + 1) d)
   | (Some (TimestampRange _ e), Some (TimestampRange _ d)) \<Rightarrow> Some (TimestampRange (e + 1000) d)
   | (Some (TidRange _ e), Some (TidRange _ d)) \<Rightarrow> Some (TidRange (TID_after e) d)
   | _ \<Rightarrow> currentRange)"

definition range_partition :: "string \<Rightarrow> PartitionRange \<Rightarrow> QRepPartition" where
  "range_partition i r = \<lparr>PartitionId = i, Range = Some r, FullTablePartition = False, ChildTableRanges = []\<rparr>"

definition createIntPartition :: "string \<Rightarrow> 64 word \<Rightarrow> 64 word \<Rightarrow> QRepPartition" where
  "createIntPartition i s e = range_partition i (IntRange s e)"

definition createTimePartition :: "string \<Rightarrow> int \<Rightarrow> int \<Rightarrow> QRepPartition" where
  "createTimePartition i s e = range_partition i (TimestampRange s e)"

definition proto_TID :: "pgTID \<Rightarrow> TID" where
  "proto_TID t = \<lparr>BlockNumber = pgBlockNumber t, OffsetNumber = ucast (pgOffsetNumber t)\<rparr>"

definition createTIDPartition :: "string \<Rightarrow> pgTID \<Rightarrow> pgTID \<Rightarrow> QRepPartition" where
  "createTIDPartition i s e = range_partition i (TidRange (proto_TID s) (proto_TID e))"

definition createUIntPartition :: "string \<Rightarrow> 64 word \<Rightarrow> 64 word \<Rightarrow> QRepPartition" where
  "createUIntPartition i s e = range_partition i (UintRange s e)"

definition CreateStringPartition :: "string \<Rightarrow> string \<Rightarrow> string \<Rightarrow> bool \<Rightarrow> QRepPartition" where
  "CreateStringPartition i s e endInclusive = range_partition i (StringRange s e endInclusive)"

definition CreateNumericPartition :: "string \<Rightarrow> 64 word \<Rightarrow> 64 word \<Rightarrow> bool \<Rightarrow> QRepPartition" where
  "CreateNumericPartition i s e endInclusive = range_partition i (NumericRange s e endInclusive)"

section \<open>The partition helper\<close>

record PartitionHelper =
  prevStart :: any_value
  prevEnd :: any_value
  partitions :: "QRepPartition list"
  drawn :: nat

definition NewPartitionHelper :: "nat \<Rightarrow> PartitionHelper" where
  "NewPartitionHelper n = \<lparr>prevStart = NilValue, prevEnd = NilValue, partitions = [], drawn = n\<rparr>"

definition AddNullPartition :: "(nat \<Rightarrow> string) \<Rightarrow> PartitionHelper \<Rightarrow> PartitionHelper" where
  "AddNullPartition uuid p = p\<lparr>partitions := partitions p @ [range_partition (uuid (drawn p)) NullRange], drawn := drawn p + 1\<rparr>"

definition AddPartitions :: "QRepPartition list \<Rightarrow> PartitionHelper \<Rightarrow> PartitionHelper" where
  "AddPartitions ps p = p\<lparr>partitions := partitions p @ ps\<rparr>"

definition GetPartitions :: "PartitionHelper \<Rightarrow> QRepPartition list" where
  "GetPartitions p = partitions p"

text \<open>
  The errors of a helper; a panic passes through the frames that wrap an error. After an error no
  caller looks at the helper again.
\<close>

datatype part_error =
    PartPanic go_panic
  | UnsupportedType
  | NilPartition
  | UnsupportedRange
  | Wrapped string part_error

fun wrap_err :: "string \<Rightarrow> (part_error, 'a) res \<Rightarrow> (part_error, 'a) res" where
  "wrap_err s (Inr x) = Inr x"
| "wrap_err s (Inl (PartPanic q)) = Inl (PartPanic q)"
| "wrap_err s (Inl e) = Inl (Wrapped s e)"

fun range_end :: "PartitionRangeType \<Rightarrow> 'a \<Rightarrow> 'a \<Rightarrow> 'a" where
  "range_end PartitionEndRangeType s e = e"
| "range_end PartitionStartRangeType s e = s"

definition comparePartitionRanges :: "PartitionRangeForComparison \<Rightarrow> PartitionRangeForComparison \<Rightarrow> int" where
  "comparePartitionRanges prev cur =
     (let pt = rangeTypeToCompare prev; ct = rangeTypeToCompare cur in
      case (partitionRange prev, partitionRange cur) of
        (Some (IntRange a b), Some (IntRange c d)) \<Rightarrow> cmp_Compare (sint (range_end pt a b)) (sint (range_end ct c d))
      | (Some (UintRange a b), Some (UintRange c d)) \<Rightarrow> cmp_Compare (uint (range_end pt a b)) (uint (range_end ct c d))
      | (Some (TimestampRange a b), Some (TimestampRange c d)) \<Rightarrow> cmp_Compare (range_end pt a b) (range_end ct c d)
      | (Some (TidRange a b), Some (TidRange c d)) \<Rightarrow>
          (let x = range_end pt a b; y = range_end ct c d;
               r = cmp_Compare (uint (BlockNumber x)) (uint (BlockNumber y)) in
           if r \<noteq> 0 then r else cmp_Compare (uint (OffsetNumber x)) (uint (OffsetNumber y)))
      | _ \<Rightarrow> 0)"

definition getPartitionForStartAndEnd ::
    "(nat \<Rightarrow> string) \<Rightarrow> any_value \<Rightarrow> any_value \<Rightarrow> PartitionHelper \<Rightarrow> (part_error, QRepPartition option \<times> PartitionHelper) res" where
  "getPartitionForStartAndEnd uuid start end p =
     (if start = NilValue \<or> end = NilValue then Inr (None, p)
      else
        let i = uuid (drawn p); drew = (\<lambda>x. Inr (Some x, p\<lparr>drawn := drawn p + 1\<rparr>)) in
        case (start, end) of
          (Int64V v, Int64V e) \<Rightarrow> drew (createIntPartition i v e)
        | (Uint64V v, Uint64V e) \<Rightarrow> drew (createUIntPartition i v e)
        | (Int32V v, Int32V e) \<Rightarrow> drew (createIntPartition i (scast v) (scast e))
        | (Uint32V v, Uint32V e) \<Rightarrow> drew (createUIntPartition i (ucast v) (ucast e))
        | (Int16V v, Int16V e) \<Rightarrow> drew (createIntPartition i (scast v) (scast e))
        | (Uint16V v, Uint16V e) \<Rightarrow> drew (createUIntPartition i (ucast v) (ucast e))
        | (Int8V v, Int8V e) \<Rightarrow> drew (createIntPartition i (scast v) (scast e))
        | (Uint8V v, Uint8V e) \<Rightarrow> drew (createUIntPartition i (ucast v) (ucast e))
        | (TimeV v, TimeV e) \<Rightarrow> drew (createTimePartition i v e)
        | (TIDV v, TIDV e) \<Rightarrow> drew (createTIDPartition i v e)
        | (OtherV, _) \<Rightarrow> Inl UnsupportedType
        | _ \<Rightarrow> Inl (PartPanic FailedTypeAssertion))"

definition updatePartitionHelper :: "QRepPartition option \<Rightarrow> PartitionHelper \<Rightarrow> (part_error, PartitionHelper) res" where
  "updatePartitionHelper mpart p = (case mpart of
     None \<Rightarrow> Inl NilPartition
   | Some part \<Rightarrow>
       (let p = p\<lparr>partitions := partitions p @ [part]\<rparr>;
            pg = (\<lambda>t. TIDV \<lparr>pgBlockNumber = BlockNumber t, pgOffsetNumber = ucast (OffsetNumber t), pgValid = False\<rparr>) in
        case Range part of
          Some (IntRange s e) \<Rightarrow> Inr (p\<lparr>prevStart := Int64V s, prevEnd := Int64V e\<rparr>)
        | Some (UintRange s e) \<Rightarrow> Inr (p\<lparr>prevStart := Uint64V s, prevEnd := Uint64V e\<rparr>)
        | Some (TimestampRange s e) \<Rightarrow> Inr (p\<lparr>prevStart := TimeV s, prevEnd := TimeV e\<rparr>)
        | Some (TidRange s e) \<Rightarrow> Inr (p\<lparr>prevStart := pg s, prevEnd := pg e\<rparr>)
        | None \<Rightarrow> Inl (PartPanic NilDereference)
        | _ \<Rightarrow> Inl UnsupportedRange))"

definition AddPartition :: "(nat \<Rightarrow> string) \<Rightarrow> any_value \<Rightarrow> any_value \<Rightarrow> PartitionHelper \<Rightarrow> (part_error, PartitionHelper) res" where
  "AddPartition uuid start end p =
     bind_res (wrap_err ''error getting current partition from start and end''
       (getPartitionForStartAndEnd uuid start end p)) (\<lambda>(current, p).
     case current of
       None \<Rightarrow> Inr p
     | Some currentPartition \<Rightarrow>
         bind_res (wrap_err ''error getting previous partition from prevStart and prevEnd''
           (getPartitionForStartAndEnd uuid (prevStart p) (prevEnd p) p)) (\<lambda>(previous, p).
         let add = (\<lambda>part. wrap_err ''error adjusting start value'' (updatePartitionHelper (Some part) p)) in
         case previous of
           None \<Rightarrow> add currentPartition
         | Some prevPartition \<Rightarrow>
             (let prevEndCompare = (\<lambda>t. comparePartitionRanges
                    \<lparr>partitionRange = Range prevPartition, rangeTypeToCompare = PartitionEndRangeType\<rparr>
                    \<lparr>partitionRange = Range currentPartition, rangeTypeToCompare = t\<rparr>) in
              if prevEndCompare PartitionStartRangeType \<ge> 0 then
                (if prevEndCompare PartitionEndRangeType \<ge> 0 then Inr p
                 else add (currentPartition\<lparr>Range := adjustStartValueOfPartition (Range prevPartition) (Range currentPartition)\<rparr>))
              else add currentPartition)))"

section \<open>Uniform ranges\<close>

text \<open>
  Both instances of \<^verbatim>\<open>ComputeRanges\<close>, for \<^verbatim>\<open>int64\<close> and \<^verbatim>\<open>uint64\<close>, work on the same bits. A zero or a
  negative number of partitions panics, in the division or in the allocation. The test for a zero
  step makes the loop total; with the step of \<^verbatim>\<open>ComputeRanges\<close> it changes nothing, since that is
  zero only for an empty span.
\<close>

definition range_step :: "64 word \<Rightarrow> 64 word \<Rightarrow> 64 word" where
  "range_step span n = (let step = span div n in if span mod n \<noteq> 0 then step + 1 else step)"

function ranges_from :: "64 word \<Rightarrow> 64 word \<Rightarrow> 64 word \<Rightarrow> (64 word \<times> 64 word) list" where
  "ranges_from step maxVal start =
     (if maxVal - start \<le> step \<or> step = 0 then [(start, maxVal)]
      else (start, start + step) # ranges_from step maxVal (start + step))"
  by pat_completeness auto
termination
proof (relation "measure (\<lambda>(step, maxVal, start). unat (maxVal - start))")
  fix step maxVal start :: "64 word"
  assume "\<not> (maxVal - start \<le> step \<or> step = 0)"
  then have "step < maxVal - start" "0 < step" by (simp_all add: word_neq_0_conv not_le)
  then have "unat (maxVal - start - step) < unat (maxVal - start)"
    by (simp add: unat_sub less_imp_le word_less_nat_alt)
  then have "unat (maxVal - (start + step)) < unat (maxVal - start)" by (simp add: diff_diff_eq)
  then show "((step, maxVal, start + step), step, maxVal, start) \<in> measure (\<lambda>(step, maxVal, start). unat (maxVal - start))"
    by simp
qed simp

declare ranges_from.simps [simp del]

definition ComputeRanges :: "64 word \<Rightarrow> 64 word \<Rightarrow> 64 word \<Rightarrow> (go_panic, (64 word \<times> 64 word) list) res" where
  "ComputeRanges minVal maxVal numPartitions =
     (if numPartitions = 0 then Inl IntegerDivideByZero
      else if sint numPartitions < 0 then Inl (ExplicitPanic ''makeslice: cap out of range'')
      else Inr (ranges_from (range_step (maxVal - minVal) numPartitions) maxVal minVal))"

definition UnixMicro_of :: "int \<Rightarrow> 64 word" where
  "UnixMicro_of t = word_of_int (t div 1000)"

definition time_UnixMicro :: "64 word \<Rightarrow> int" where
  "time_UnixMicro us = sint us * 1000"

definition add_ranges ::
    "(nat \<Rightarrow> string) \<Rightarrow> (64 word \<Rightarrow> any_value) \<Rightarrow> 64 word \<Rightarrow> 64 word \<Rightarrow> 64 word \<Rightarrow> PartitionHelper \<Rightarrow> (part_error, PartitionHelper) res" where
  "add_ranges uuid f minVal maxVal n p = (case ComputeRanges minVal maxVal n of
     Inl q \<Rightarrow> Inl (PartPanic q)
   | Inr rs \<Rightarrow> fold_res (\<lambda>(s, e) p. AddPartition uuid (f s) (f e) p) rs p)"

definition AddPartitionsWithRange ::
    "(nat \<Rightarrow> string) \<Rightarrow> any_value \<Rightarrow> any_value \<Rightarrow> 64 word \<Rightarrow> PartitionHelper \<Rightarrow> (part_error, PartitionHelper) res" where
  "AddPartitionsWithRange uuid start end numPartitions p =
     bind_res (getPartitionForStartAndEnd uuid start end p) (\<lambda>(mpart, p).
     case mpart of
       None \<Rightarrow> Inr p
     | Some part \<Rightarrow>
        (case Range part of
           Some (IntRange s e) \<Rightarrow> add_ranges uuid Int64V s e numPartitions p
         | Some (UintRange s e) \<Rightarrow> add_ranges uuid Uint64V s e numPartitions p
         | Some (TimestampRange s e) \<Rightarrow>
             add_ranges uuid (\<lambda>us. TimeV (time_UnixMicro us)) (UnixMicro_of s) (UnixMicro_of e) numPartitions p
         | None \<Rightarrow> Inl (PartPanic NilDereference)
         | _ \<Rightarrow> Inr p))"

section \<open>The ranges a helper collects\<close>

text \<open>
  What adding a range means, for values with a position on the integers: a range that begins after
  the last one is appended, one that ends no later is skipped, any other is cut to the part
  after the last one.
\<close>

definition add_range :: "('v \<Rightarrow> int) \<Rightarrow> ('v \<Rightarrow> 'v) \<Rightarrow> ('v \<times> 'v) list \<Rightarrow> 'v \<times> 'v \<Rightarrow> ('v \<times> 'v) list" where
  "add_range val nxt rs r =
     (if rs = [] then [r]
      else let e = snd (last rs) in
        if val e < val (fst r) then rs @ [r]
        else if val (snd r) \<le> val e then rs
        else rs @ [(nxt e, snd r)])"

definition covered :: "('v \<Rightarrow> int) \<Rightarrow> ('v \<times> 'v) list \<Rightarrow> int set" where
  "covered val rs = {x. \<exists>r \<in> set rs. val (fst r) \<le> x \<and> x \<le> val (snd r)}"

definition separated :: "('v \<Rightarrow> int) \<Rightarrow> ('v \<times> 'v) list \<Rightarrow> bool" where
  "separated val rs \<longleftrightarrow> sorted_wrt (\<lambda>r r'. val (snd r) < val (fst r')) rs \<and> (\<forall>r \<in> set rs. val (fst r) \<le> val (snd r))"

lemma covered_simps [simp]:
  "covered val [] = {}" "covered val (r # rs) = {val (fst r)..val (snd r)} \<union> covered val rs"
  "covered val (rs @ rs') = covered val rs \<union> covered val rs'"
  by (auto simp: covered_def)

lemma separated_snoc:
  "separated val (rs @ [r]) \<longleftrightarrow> separated val rs \<and> val (fst r) \<le> val (snd r) \<and> (\<forall>x \<in> set rs. val (snd x) < val (fst r))"
  by (auto simp: separated_def sorted_wrt_append)

lemma separated_last:
  assumes "separated val rs" and "r \<in> set rs"
  shows "val (snd r) \<le> val (snd (last rs))"
proof -
  obtain ys z where rs: "rs = ys @ [z]" using assms(2) by (metis empty_iff empty_set rev_exhaust)
  with assms show ?thesis by (auto simp: separated_snoc intro: order_trans less_imp_le)
qed

lemma add_range_length: "length (foldl (add_range val nxt) rs ins) \<le> length rs + length ins"
proof (induction ins arbitrary: rs)
  case (Cons r ins)
  have "length (add_range val nxt rs r) \<le> length rs + 1" by (simp add: add_range_def Let_def)
  with Cons [of "add_range val nxt rs r"] show ?case by simp
qed simp

definition range_helper ::
    "(nat \<Rightarrow> string) \<Rightarrow> ('v \<Rightarrow> any_value) \<Rightarrow> ('v \<Rightarrow> 'v \<Rightarrow> PartitionRange) \<Rightarrow> PartitionHelper \<Rightarrow> ('v \<times> 'v) list \<Rightarrow> bool" where
  "range_helper uuid toAny mk p rs \<longleftrightarrow>
     (\<exists>ns. length ns = length rs \<and> sorted_wrt (<) ns \<and> (\<forall>n \<in> set ns. n < drawn p) \<and>
        partitions p = map2 (\<lambda>n r. range_partition (uuid n) (mk (fst r) (snd r))) ns rs) \<and>
     prevStart p = (if rs = [] then NilValue else toAny (fst (last rs))) \<and>
     prevEnd p = (if rs = [] then NilValue else toAny (snd (last rs)))"

text \<open>
  A kind of ranges: how its values are passed and stored, that the comparison of the code is that of
  their positions, and that the value after one is its successor.
\<close>

locale range_kind =
  fixes toAny :: "'v \<Rightarrow> any_value" and mk :: "'v \<Rightarrow> 'v \<Rightarrow> PartitionRange"
    and val :: "'v \<Rightarrow> int" and nxt :: "'v \<Rightarrow> 'v" and ok :: "'v \<Rightarrow> bool"
  assumes get: "getPartitionForStartAndEnd u (toAny a) (toAny b) p =
      Inr (Some (range_partition (u (drawn p)) (mk a b)), p\<lparr>drawn := drawn p + 1\<rparr>)"
    and compare: "ok b \<Longrightarrow> ok c \<Longrightarrow> ok d \<Longrightarrow> comparePartitionRanges
      \<lparr>partitionRange = Some (mk a b), rangeTypeToCompare = PartitionEndRangeType\<rparr>
      \<lparr>partitionRange = Some (mk c d), rangeTypeToCompare = t\<rparr> = cmp_Compare (val b) (val (range_end t c d))"
    and adjust: "adjustStartValueOfPartition (Some (mk a b)) (Some (mk c d)) = Some (mk (nxt b) d)"
    and update: "updatePartitionHelper (Some (range_partition i (mk a b))) p =
      Inr (p\<lparr>partitions := partitions p @ [range_partition i (mk a b)], prevStart := toAny a, prevEnd := toAny b\<rparr>)"
    and nxt_ok: "ok b \<Longrightarrow> ok d \<Longrightarrow> val b < val d \<Longrightarrow> ok (nxt b)"
    and nxt_val: "ok b \<Longrightarrow> ok d \<Longrightarrow> val b < val d \<Longrightarrow> val (nxt b) = val b + 1"
begin

lemma get_nil: "getPartitionForStartAndEnd u NilValue NilValue p = Inr (None, p)"
  by (simp add: getPartitionForStartAndEnd_def)

lemma range_helper_draw:
  "range_helper u toAny mk p rs \<Longrightarrow> range_helper u toAny mk (p\<lparr>drawn := drawn p + n\<rparr>) rs"
  by (fastforce simp: range_helper_def)

lemma range_helper_update:
  assumes "range_helper u toAny mk p rs" and "n = drawn p" and "n < drawn p'" and "drawn p \<le> drawn p'"
    and "partitions p' = partitions p @ [range_partition (u n) (mk a b)]"
    and "prevStart p' = toAny a" and "prevEnd p' = toAny b"
  shows "range_helper u toAny mk p' (rs @ [(a, b)])"
proof -
  from assms(1) obtain ns where ns: "length ns = length rs" "sorted_wrt (<) ns" "\<forall>n \<in> set ns. n < drawn p"
    "partitions p = map2 (\<lambda>n r. range_partition (u n) (mk (fst r) (snd r))) ns rs"
    by (auto simp: range_helper_def)
  then show ?thesis using assms(2-) unfolding range_helper_def
    by (intro conjI exI [of _ "ns @ [n]"]) (auto simp: sorted_wrt_append)
qed

lemma AddPartition_adds:
  assumes "range_helper u toAny mk p rs" and "ok a" and "ok b" and "\<forall>r \<in> set rs. ok (snd r)"
  shows "\<exists>p'. AddPartition u (toAny a) (toAny b) p = Inr p' \<and> range_helper u toAny mk p' (add_range val nxt rs (a, b))"
proof (cases "rs = []")
  case True
  with assms(1) have "prevStart p = NilValue" "prevEnd p = NilValue" by (simp_all add: range_helper_def)
  then show ?thesis using True
    by (simp add: AddPartition_def get get_nil update add_range_def
        range_helper_update [OF assms(1), unfolded True, simplified])
next
  case False
  let ?s = "fst (last rs)" and ?e = "snd (last rs)"
  have prev: "prevStart p = toAny ?s" "prevEnd p = toAny ?e" using assms(1) False by (simp_all add: range_helper_def)
  have e: "ok ?e" using assms(4) False by simp
  note cmp = compare [OF e assms(2,3)]
  have new: "range_helper u toAny mk p' (rs @ [(x, b)])"
    if "p' = p\<lparr>drawn := Suc (Suc (drawn p)), partitions := partitions p @ [range_partition (u (drawn p)) (mk x b)],
        prevStart := toAny x, prevEnd := toAny b\<rparr>" for p' x
    using that by (intro range_helper_update [OF assms(1) refl]) simp_all
  have "(range_partition i r)\<lparr>Range := Some r'\<rparr> = range_partition i r'" for i r r'
    by (simp add: range_partition_def)
  moreover have "Range (range_partition i r) = Some r" for i r by (simp add: range_partition_def)
  ultimately show ?thesis using False new range_helper_draw [OF assms(1), of 2]
    by (simp add: AddPartition_def get prev cmp adjust update add_range_def Let_def)
qed

end

text \<open>
  Adding ranges whose starts do not decrease: the result covers exactly the values of the ranges, and
  no value twice.
\<close>

context range_kind
begin

lemma add_range_ok:
  assumes "\<forall>r \<in> set rs. ok (fst r) \<and> ok (snd r)" and "ok (fst r)" and "ok (snd r)"
  shows "\<forall>r \<in> set (add_range val nxt rs r). ok (fst r) \<and> ok (snd r)"
  using assms by (auto simp: add_range_def Let_def not_le intro: nxt_ok)

lemma AddPartition_fold:
  assumes "range_helper u toAny mk p rs" and "\<forall>r \<in> set rs. ok (fst r) \<and> ok (snd r)"
    and "\<forall>r \<in> set ins. ok (fst r) \<and> ok (snd r)"
  shows "\<exists>p'. fold_res (\<lambda>(s, e) p. AddPartition u (toAny s) (toAny e) p) ins p = Inr p' \<and>
     range_helper u toAny mk p' (foldl (add_range val nxt) rs ins)"
  using assms
proof (induction ins arbitrary: p rs)
  case (Cons r ins)
  from Cons.prems AddPartition_adds [OF Cons.prems(1), of "fst r" "snd r"] obtain p' where
    p': "AddPartition u (toAny (fst r)) (toAny (snd r)) p = Inr p'" "range_helper u toAny mk p' (add_range val nxt rs r)"
    by auto
  show ?case using Cons.IH [OF p'(2) add_range_ok] Cons.prems p'(1) by (simp add: case_prod_unfold)
qed auto

definition built :: "('v \<times> 'v) list \<Rightarrow> ('v \<times> 'v) list \<Rightarrow> bool" where
  "built ins rs \<longleftrightarrow> separated val rs \<and> covered val rs = covered val ins \<and> (ins = [] \<longleftrightarrow> rs = []) \<and>
     (ins \<noteq> [] \<longrightarrow> (\<exists>r \<in> set ins. val (snd r) = val (snd (last rs)))) \<and>
     (\<forall>r \<in> set rs. ok (fst r) \<and> ok (snd r))"

lemma built_add:
  assumes "built ins rs" and "ok (fst r)" and "ok (snd r)" and "val (fst r) \<le> val (snd r)"
    and "\<forall>x \<in> set ins. val (fst x) \<le> val (fst r)"
  shows "built (ins @ [r]) (add_range val nxt rs r)"
proof (cases "rs = []")
  case True
  then show ?thesis using assms by (auto simp: built_def add_range_def separated_def)
next
  case False
  let ?e = "snd (last rs)"
  have sep: "separated val rs" and oke: "ok ?e" using assms(1) False by (simp_all add: built_def)
  have before: "\<forall>x \<in> set rs. val (snd x) \<le> val ?e" using separated_last [OF sep] by blast
  obtain x where x: "x \<in> set ins" "val (snd x) = val ?e" using assms(1) False by (auto simp: built_def)
  have inside: "{val (fst r)..val ?e} \<subseteq> covered val ins"
  proof -
    have "val (fst x) \<le> val (fst r)" using assms(5) x(1) by blast
    with x show ?thesis unfolding covered_def by (auto intro!: bexI [of _ x])
  qed
  consider (after) "val ?e < val (fst r)" | (skip) "val (fst r) \<le> val ?e" "val (snd r) \<le> val ?e"
    | (cut) "val (fst r) \<le> val ?e" "val ?e < val (snd r)" by linarith
  then show ?thesis
  proof cases
    case after
    then have "add_range val nxt rs r = rs @ [r]" using False by (simp add: add_range_def)
    moreover have "\<forall>x \<in> set rs. val (snd x) < val (fst r)" using before after by fastforce
    ultimately show ?thesis using assms by (simp add: built_def separated_snoc)
  next
    case skip
    then have "add_range val nxt rs r = rs" using False by (simp add: add_range_def)
    moreover have "{val (fst r)..val (snd r)} \<subseteq> covered val ins"
      using inside skip(2) by (meson atLeastatMost_subset_iff order_refl subset_trans)
    ultimately show ?thesis using assms(1) False by (auto simp: built_def)
  next
    case cut
    then have add: "add_range val nxt rs r = rs @ [(nxt ?e, snd r)]" using False by (simp add: add_range_def)
    note n = nxt_val [OF oke assms(3) cut(2)] nxt_ok [OF oke assms(3) cut(2)]
    have "{val (fst r)..val (snd r)} = {val (fst r)..val ?e} \<union> {val ?e + 1..val (snd r)}" using cut by auto
    then have "covered val ins \<union> {val (fst r)..val (snd r)} = covered val ins \<union> {val ?e + 1..val (snd r)}"
      using inside by blast
    moreover have "\<forall>x \<in> set rs. val (snd x) < val ?e + 1" using before by fastforce
    ultimately show ?thesis using assms cut(2) n add by (auto simp: built_def separated_snoc)
  qed
qed

lemma built_fold:
  assumes "built ins0 rs" and "\<forall>r \<in> set ins. ok (fst r) \<and> ok (snd r) \<and> val (fst r) \<le> val (snd r)"
    and "sorted (map (\<lambda>r. val (fst r)) (ins0 @ ins))"
  shows "built (ins0 @ ins) (foldl (add_range val nxt) rs ins)"
  using assms
proof (induction ins arbitrary: ins0 rs)
  case (Cons r ins)
  have "built (ins0 @ [r]) (add_range val nxt rs r)"
    using Cons.prems by (intro built_add) (auto simp: sorted_append)
  from Cons.IH [OF this] Cons.prems show ?case by simp
qed simp

lemma partitions_exact:
  assumes "\<forall>r \<in> set ins. ok (fst r) \<and> ok (snd r) \<and> val (fst r) \<le> val (snd r)"
    and "sorted (map (\<lambda>r. val (fst r)) ins)"
  shows "\<exists>p' rs. fold_res (\<lambda>(s, e) p. AddPartition u (toAny s) (toAny e) p) ins (NewPartitionHelper n) = Inr p' \<and>
     range_helper u toAny mk p' rs \<and> separated val rs \<and> covered val rs = covered val ins \<and> length rs \<le> length ins"
proof -
  have "range_helper u toAny mk (NewPartitionHelper n) []" by (simp add: range_helper_def NewPartitionHelper_def)
  from AddPartition_fold [OF this, of ins] assms(1) obtain p' where
    p': "fold_res (\<lambda>(s, e) p. AddPartition u (toAny s) (toAny e) p) ins (NewPartitionHelper n) = Inr p'"
    "range_helper u toAny mk p' (foldl (add_range val nxt) [] ins)" by auto
  have "built [] []" by (simp add: built_def separated_def)
  from built_fold [OF this, of ins] assms have "built ins (foldl (add_range val nxt) [] ins)" by simp
  moreover have "length (foldl (add_range val nxt) [] ins) \<le> length ins" using add_range_length [of val nxt "[]"] by simp
  ultimately show ?thesis using p' by (auto simp: built_def)
qed

end

section \<open>The kinds of ranges\<close>

lemma sint_succ: "sint b < sint d \<Longrightarrow> sint (b + 1) = sint b + 1" for b d :: "64 word"
  using sint64_range [of b] sint64_range [of d] sint_arith64(1) [of b 1] by simp

lemma uint_succ: "uint b < uint d \<Longrightarrow> uint (b + 1) = uint b + 1" for b d :: "64 word"
  using uint_lt2p [of d] by (simp add: uint_plus_if')

interpretation ikind: range_kind Int64V IntRange sint "\<lambda>w. w + 1" "\<lambda>w. True"
proof unfold_locales
  show "sint (b + 1) = sint b + 1" if "sint b < sint d" for b d :: "64 word" by (rule sint_succ [OF that])
qed (simp_all add: getPartitionForStartAndEnd_def createIntPartition_def comparePartitionRanges_def
      adjustStartValueOfPartition_def updatePartitionHelper_def range_partition_def Let_def)

interpretation ukind: range_kind Uint64V UintRange uint "\<lambda>w. w + 1" "\<lambda>w. True"
proof unfold_locales
  show "uint (b + 1) = uint b + 1" if "uint b < uint d" for b d :: "64 word" by (rule uint_succ [OF that])
qed (simp_all add: getPartitionForStartAndEnd_def createUIntPartition_def comparePartitionRanges_def
      adjustStartValueOfPartition_def updatePartitionHelper_def range_partition_def Let_def)

text \<open>Times are compared to the nanosecond and separated by a microsecond, the resolution of the sources.\<close>

lemma cmp_Compare_scale: "0 < k \<Longrightarrow> cmp_Compare (a * k) (b * k) = cmp_Compare a b"
  by (simp add: cmp_Compare_def)

lemma cmp_Compare_micro:
  assumes "1000 dvd a" and "1000 dvd b"
  shows "cmp_Compare a b = cmp_Compare (a div 1000) (b div 1000)"
  using assms cmp_Compare_scale [of 1000 "a div 1000" "b div 1000"] by simp

interpretation tkind: range_kind TimeV TimestampRange "\<lambda>t. t div 1000" "\<lambda>t. t + 1000" "\<lambda>t. 1000 dvd t"
proof unfold_locales
  fix a b c d :: int and t
  assume "1000 dvd b" "1000 dvd c" "1000 dvd d"
  then show "comparePartitionRanges
      \<lparr>partitionRange = Some (TimestampRange a b), rangeTypeToCompare = PartitionEndRangeType\<rparr>
      \<lparr>partitionRange = Some (TimestampRange c d), rangeTypeToCompare = t\<rparr> = cmp_Compare (b div 1000) (range_end t c d div 1000)"
    by (cases t) (simp_all add: comparePartitionRanges_def cmp_Compare_micro)
qed (simp_all add: getPartitionForStartAndEnd_def createTimePartition_def
      adjustStartValueOfPartition_def updatePartitionHelper_def range_partition_def Let_def)

text \<open>Tuple identifiers are ordered by block, then by offset.\<close>

type_synonym tid_value = "32 word \<times> 16 word"

definition tid_any :: "tid_value \<Rightarrow> any_value" where
  "tid_any t = TIDV \<lparr>pgBlockNumber = fst t, pgOffsetNumber = snd t, pgValid = False\<rparr>"

definition tid_proto :: "tid_value \<Rightarrow> TID" where
  "tid_proto t = \<lparr>BlockNumber = fst t, OffsetNumber = ucast (snd t)\<rparr>"

definition tid_val :: "tid_value \<Rightarrow> int" where
  "tid_val t = uint (fst t) * 65536 + uint (snd t)"

definition tid_next :: "tid_value \<Rightarrow> tid_value" where
  "tid_next t = (if snd t < 0xFFFF then (fst t, snd t + 1) else (fst t + 1, 0))"

lemma uint16_less: "uint (w :: 16 word) < 65536"
  using uint_lt2p [of w] by simp

lemma uint32_less: "uint (w :: 32 word) < 4294967296"
  using uint_lt2p [of w] by simp

lemma uint_ucast16: "uint (ucast (w :: 16 word) :: 32 word) = uint w"
  using uint16_less [of w] by (simp add: unsigned_ucast_eq take_bit_int_eq_self)

lemma ucast_ucast16: "ucast (ucast (w :: 16 word) :: 32 word) = w"
  by (rule ucast_up_ucast_id) (simp add: is_up)

lemma tid_compare:
  "(if cmp_Compare (uint (fst b)) (uint (fst c)) \<noteq> 0 then cmp_Compare (uint (fst b)) (uint (fst c))
    else cmp_Compare (uint (snd b)) (uint (snd c))) = cmp_Compare (tid_val b) (tid_val c)"
  for b c :: tid_value
proof -
  note bounds = uint16_less [of "snd b"] uint16_less [of "snd c"] uint_ge_0 [of "snd b"] uint_ge_0 [of "snd c"]
  consider "uint (fst b) < uint (fst c)" | "uint (fst b) = uint (fst c)" | "uint (fst c) < uint (fst b)" by linarith
  then show ?thesis
  proof cases
    case 1
    then have "tid_val b < tid_val c" using bounds unfolding tid_val_def by linarith
    with 1 show ?thesis by (simp add: cmp_Compare_def)
  next
    case 2
    then show ?thesis by (simp add: cmp_Compare_def tid_val_def)
  next
    case 3
    then have "tid_val c < tid_val b" using bounds unfolding tid_val_def by linarith
    with 3 show ?thesis by (simp add: cmp_Compare_def)
  qed
qed

lemma tid_next_val:
  assumes "tid_val b < tid_val d"
  shows "tid_val (tid_next b) = tid_val b + 1"
proof (cases "snd b < 0xFFFF")
  case True
  then have "uint (snd b + 1) = uint (snd b) + 1" by (simp add: uint_plus_if' word_less_def)
  with True show ?thesis by (simp add: tid_next_def tid_val_def)
next
  case False
  then have o: "uint (snd b) = 65535" using uint16_less [of "snd b"] by (simp add: word_less_def)
  have "uint (fst b) < uint (fst d)"
    using assms o uint16_less [of "snd d"] unfolding tid_val_def by linarith
  then have "uint (fst b + 1) = uint (fst b) + 1" using uint32_less [of "fst d"] by (simp add: uint_plus_if')
  with False o show ?thesis by (simp add: tid_next_def tid_val_def)
qed

lemma TID_after_proto: "TID_after (tid_proto b) = tid_proto (tid_next b)"
proof -
  have "OffsetNumber (tid_proto b) < 0xFFFF \<longleftrightarrow> snd b < 0xFFFF"
    by (simp add: tid_proto_def word_less_def uint_ucast16)
  moreover have "ucast (snd b) + 1 = (ucast (snd b + 1) :: 32 word)" if "snd b < 0xFFFF"
  proof -
    have "uint (snd b + 1) = uint (snd b) + 1" using that by (simp add: uint_plus_if' word_less_def)
    then have "uint (ucast (snd b) + 1 :: 32 word) = uint (ucast (snd b + 1) :: 32 word)"
      using uint16_less [of "snd b"] by (simp add: uint_plus_if' uint_ucast16)
    then show ?thesis by (simp only: word_uint_eq_iff)
  qed
  ultimately show ?thesis by (simp add: TID_after_def tid_next_def) (simp add: tid_proto_def)
qed

interpretation tidkind: range_kind tid_any "\<lambda>a b. TidRange (tid_proto a) (tid_proto b)" tid_val tid_next "\<lambda>t. True"
proof unfold_locales
  fix a b c d :: tid_value and t
  show "comparePartitionRanges
      \<lparr>partitionRange = Some (TidRange (tid_proto a) (tid_proto b)), rangeTypeToCompare = PartitionEndRangeType\<rparr>
      \<lparr>partitionRange = Some (TidRange (tid_proto c) (tid_proto d)), rangeTypeToCompare = t\<rparr> =
      cmp_Compare (tid_val b) (tid_val (range_end t c d))"
    using tid_compare [of b c] tid_compare [of b d]
    by (cases t) (simp_all add: comparePartitionRanges_def tid_proto_def uint_ucast16 Let_def split: if_split_asm)
  show "tid_val (tid_next b) = tid_val b + 1" if "tid_val b < tid_val d" for b d by (rule tid_next_val [OF that])
qed (simp_all add: getPartitionForStartAndEnd_def createTIDPartition_def TID_after_proto
      adjustStartValueOfPartition_def updatePartitionHelper_def range_partition_def Let_def,
     simp_all add: tid_any_def tid_proto_def proto_TID_def createTIDPartition_def range_partition_def ucast_ucast16)

section \<open>The uniform ranges\<close>

lemma range_step_enough:
  assumes "n \<noteq> 0"
  shows "uint span \<le> uint n * uint (range_step span n)"
proof -
  have n: "0 < uint n" using assms by (simp add: word_neq_0_conv word_less_def)
  have dm: "uint span = uint n * (uint span div uint n) + uint span mod uint n" by simp
  show ?thesis
  proof (cases "span mod n = 0")
    case True
    then have "uint span mod uint n = 0" using uint_mod [of span n] by simp
    then show ?thesis using dm True by (simp add: range_step_def uint_div)
  next
    case False
    have "n \<noteq> 1" using False by auto
    then have "uint n \<noteq> 1" using word_uint_eq_iff [of n 1] by simp
    with n have "2 \<le> uint n" by simp
    then have "uint span div uint n \<le> uint span div 2" by (intro zdiv_mono2) simp_all
    then have "uint span div uint n + 1 < 2 ^ 64" using uint_lt2p [of span] by simp
    then have "uint (span div n + 1) = uint span div uint n + 1" by (simp add: uint_plus_if' uint_div)
    then have "uint n * uint (range_step span n) = uint n * (uint span div uint n) + uint n"
      using False by (simp add: range_step_def Let_def distrib_left)
    moreover have "uint span mod uint n < uint n" using n by simp
    ultimately show ?thesis using dm by linarith
  qed
qed

text \<open>
  A reading of 64-bit words as integers, signed or unsigned: the unsigned difference of two words in order
  is their distance, and adding a distance that stays below some word is exact.
\<close>

locale word_position =
  fixes pos :: "64 word \<Rightarrow> int"
  assumes distance: "pos a \<le> pos b \<Longrightarrow> uint (b - a) = pos b - pos a"
    and advance: "pos a + uint s \<le> pos b \<Longrightarrow> pos (a + s) = pos a + uint s"
begin

lemma ranges_from_spec:
  assumes "pos start \<le> pos maxVal" and "step \<noteq> 0 \<or> start = maxVal"
  shows "let rs = ranges_from step maxVal start in
     covered pos rs = {pos start..pos maxVal} \<and> sorted (map (\<lambda>r. pos (fst r)) rs) \<and>
     (\<forall>r \<in> set rs. pos start \<le> pos (fst r) \<and> pos (fst r) \<le> pos (snd r)) \<and>
     (length rs = 1 \<or> int (length rs - 1) * uint step < pos maxVal - pos start) \<and> rs \<noteq> []"
  using assms
proof (induction step maxVal start rule: ranges_from.induct)
  case (1 step maxVal start)
  note d = distance [OF 1(2)]
  show ?case
  proof (cases "maxVal - start \<le> step \<or> step = 0")
    case True
    then show ?thesis using 1(2) by (subst ranges_from.simps) (simp add: Let_def)
  next
    case False
    then have less: "uint step < pos maxVal - pos start" "step \<noteq> 0" using d by (simp_all add: word_le_def)
    then have next_pos: "pos (start + step) = pos start + uint step" using advance [of start step maxVal] by simp
    with less have le: "pos (start + step) \<le> pos maxVal" by simp
    let ?rs = "ranges_from step maxVal (start + step)"
    have rs: "ranges_from step maxVal start = (start, start + step) # ?rs"
      using False by (subst ranges_from.simps) simp
    have IH: "covered pos ?rs = {pos (start + step)..pos maxVal}" "sorted (map (\<lambda>r. pos (fst r)) ?rs)"
      "\<forall>r \<in> set ?rs. pos (start + step) \<le> pos (fst r) \<and> pos (fst r) \<le> pos (snd r)"
      "length ?rs = 1 \<or> int (length ?rs - 1) * uint step < pos maxVal - pos (start + step)" "?rs \<noteq> []"
      using 1(1) [OF False le] less(2) unfolding Let_def by blast+
    have step0: "0 \<le> uint step" by simp
    have "int (length ?rs) * uint step < pos maxVal - pos start"
    proof (cases "length ?rs = 1")
      case True
      then show ?thesis using less(1) by simp
    next
      case False
      then have "int (length ?rs - 1) * uint step < pos maxVal - pos start - uint step"
        using IH(4) next_pos by linarith
      moreover have "int (length ?rs) = int (length ?rs - 1) + 1" using IH(5) by (simp add: of_nat_diff Suc_leI)
      then have "int (length ?rs) * uint step = int (length ?rs - 1) * uint step + uint step"
        by (simp only: distrib_right mult_1)
      ultimately show ?thesis by linarith
    qed
    moreover have "{pos start..pos start + uint step} \<union> {pos start + uint step..pos maxVal} = {pos start..pos maxVal}"
      using le next_pos step0 by (intro ivl_disj_un_two_touch(4)) simp_all
    moreover have "pos start \<le> pos (start + step)" using next_pos step0 by linarith
    then have "\<forall>r \<in> set ?rs. pos start \<le> pos (fst r) \<and> pos (fst r) \<le> pos (snd r)"
      using IH(3) by (meson order_trans)
    ultimately show ?thesis using IH(1,2) next_pos step0 unfolding rs Let_def by simp
  qed
qed

lemma ComputeRanges_spec:
  assumes "pos minVal \<le> pos maxVal" and "0 < sint n"
  obtains rs where "ComputeRanges minVal maxVal n = Inr rs" and "covered pos rs = {pos minVal..pos maxVal}"
    and "sorted (map (\<lambda>r. pos (fst r)) rs)" and "\<forall>r \<in> set rs. pos (fst r) \<le> pos (snd r)"
    and "int (length rs) \<le> sint n" and "rs \<noteq> []"
proof -
  let ?span = "maxVal - minVal" let ?step = "range_step ?span n"
  let ?rs = "ranges_from ?step maxVal minVal"
  have n0: "n \<noteq> 0" using assms(2) by auto
  have un: "uint n = sint n" using uint_diff_signed [of 0 n] assms(2) by simp
  have up: "uint ?span \<le> uint n * uint ?step"
    by (rule range_step_enough [OF n0])
  have "?step \<noteq> 0 \<or> minVal = maxVal"
  proof (cases "?step = 0")
    case True
    with up have "uint ?span = 0" by simp
    then have "?span = 0" by (simp only: uint_0_iff)
    then show ?thesis by simp
  qed simp
  from ranges_from_spec [OF assms(1) this] have r: "covered pos ?rs = {pos minVal..pos maxVal}"
    "sorted (map (\<lambda>r. pos (fst r)) ?rs)" "\<forall>r \<in> set ?rs. pos (fst r) \<le> pos (snd r)" "?rs \<noteq> []"
    "length ?rs = 1 \<or> int (length ?rs - 1) * uint ?step < pos maxVal - pos minVal"
    unfolding Let_def by blast+
  have len: "int (length ?rs) \<le> sint n"
  proof (cases "length ?rs = 1")
    case False
    with r(5) have "int (length ?rs - 1) * uint ?step < uint n * uint ?step"
      using up distance [OF assms(1)] by linarith
    then have "int (length ?rs - 1) < uint n" using uint_ge_0 [of ?step] by (rule mult_right_less_imp_less)
    moreover have "int (length ?rs) = int (length ?rs - 1) + 1" using r(4) by (simp add: of_nat_diff Suc_leI)
    ultimately show ?thesis using un by linarith
  qed (use assms(2) in simp)
  have "ComputeRanges minVal maxVal n = Inr ?rs" using n0 assms(2) by (simp add: ComputeRanges_def)
  then show ?thesis by (rule that [OF _ r(1-3) len r(4)])
qed

end

lemma sint_advance:
  fixes a b s :: "64 word"
  assumes "sint a + uint s \<le> sint b"
  shows "sint (a + s) = sint a + uint s"
proof -
  have "a + s = word_of_int (sint a + uint s)" by simp
  moreover have "fits64 (sint a + uint s)" using assms sint64_range [of a] sint64_range [of b] uint_ge_0 [of s] by linarith
  ultimately show ?thesis using sint_of_int64 by metis
qed

interpretation spos: word_position sint
  by unfold_locales (simp_all add: uint_diff_signed sint_advance)

interpretation upos: word_position uint
proof unfold_locales
  fix a b s :: "64 word"
  show "uint (b - a) = uint b - uint a" if "uint a \<le> uint b" by (rule uint_diff_unsigned [OF that])
  show "uint (a + s) = uint a + uint s" if "uint a + uint s \<le> uint b"
    using that uint_lt2p [of b] by (simp add: uint_plus_if')
qed

section \<open>Uniform partitions\<close>

lemma fold_res_map: "fold_res f (map g xs) s = fold_res (\<lambda>x. f (g x)) xs s"
  by (induction xs arbitrary: s) (auto intro!: bind_res_cong)

lemma covered_map: "covered val (map (\<lambda>r. (f (fst r), f (snd r))) rs) = covered (\<lambda>x. val (f x)) rs"
  by (auto simp: covered_def)

lemma range_helper_ranges:
  assumes "range_helper u toAny mk p rs"
  shows "map Range (partitions p) = map (\<lambda>r. Some (mk (fst r) (snd r))) rs"
    and "inj u \<Longrightarrow> distinct (map PartitionId (partitions p))"
proof -
  from assms obtain ns where ns: "length ns = length rs" "sorted_wrt (<) ns"
    "partitions p = map2 (\<lambda>n r. range_partition (u n) (mk (fst r) (snd r))) ns rs"
    by (auto simp: range_helper_def)
  have "map Range (partitions p) = map (\<lambda>r. Some (mk (fst r) (snd r))) (map snd (zip ns rs))"
    unfolding ns(3) by (simp add: range_partition_def case_prod_unfold)
  with ns(1) show "map Range (partitions p) = map (\<lambda>r. Some (mk (fst r) (snd r))) rs" by simp
  have "map PartitionId (partitions p) = map u (map fst (zip ns rs))"
    unfolding ns(3) by (simp add: range_partition_def case_prod_unfold)
  then have "map PartitionId (partitions p) = map u ns" using ns(1) by simp
  moreover have "distinct ns" using ns(2) strict_sorted_iff by blast
  ultimately show "distinct (map PartitionId (partitions p))" if "inj u"
    using inj_on_subset [OF that] by (simp add: distinct_map)
qed

lemma range_helper_length: "range_helper u toAny mk p rs \<Longrightarrow> length (partitions p) = length rs"
  using arg_cong [OF range_helper_ranges(1), of u toAny mk p rs length] by simp

locale uniform_kind = range_kind toAny mk val nxt ok + word_position pos
  for toAny :: "'v \<Rightarrow> any_value" and mk val nxt ok pos +
  fixes conv :: "64 word \<Rightarrow> 'v"
  assumes val_conv: "val (conv w) = pos w" and ok_conv: "ok (conv w)"
begin

lemma uniform_partitions:
  assumes "pos s \<le> pos e" and "0 < sint n"
  shows "\<exists>p rs. add_ranges u (\<lambda>w. toAny (conv w)) s e n (NewPartitionHelper k) = Inr p \<and>
     range_helper u toAny mk p rs \<and> separated val rs \<and> covered val rs = {pos s..pos e} \<and> int (length rs) \<le> sint n"
proof -
  obtain rs where rs: "ComputeRanges s e n = Inr rs" "covered pos rs = {pos s..pos e}"
    "sorted (map (\<lambda>r. pos (fst r)) rs)" "\<forall>r \<in> set rs. pos (fst r) \<le> pos (snd r)" "int (length rs) \<le> sint n"
    using ComputeRanges_spec [OF assms] by metis
  let ?ins = "map (\<lambda>r. (conv (fst r), conv (snd r))) rs"
  have ok: "\<forall>r \<in> set ?ins. ok (fst r) \<and> ok (snd r) \<and> val (fst r) \<le> val (snd r)"
    using rs(4) by (simp add: ok_conv val_conv)
  have "sorted (map (\<lambda>r. val (fst r)) ?ins)" using rs(3) by (simp add: val_conv comp_def)
  from partitions_exact [OF ok this, of u k] obtain p rs' where p:
    "fold_res (\<lambda>(s, e) p. AddPartition u (toAny s) (toAny e) p) ?ins (NewPartitionHelper k) = Inr p"
    "range_helper u toAny mk p rs'" "separated val rs'" "covered val rs' = covered val ?ins" "length rs' \<le> length ?ins"
    by blast
  have "add_ranges u (\<lambda>w. toAny (conv w)) s e n (NewPartitionHelper k) = Inr p"
    using rs(1) p(1) by (simp add: add_ranges_def fold_res_map case_prod_unfold)
  moreover have "covered val rs' = {pos s..pos e}" using p(4) rs(2) by (simp add: covered_map val_conv)
  ultimately show ?thesis using p(2,3,5) rs(5) by fastforce
qed

end

interpretation iuni: uniform_kind Int64V IntRange sint "\<lambda>w. w + 1" "\<lambda>w. True" sint "\<lambda>w. w"
  by unfold_locales simp_all

interpretation uuni: uniform_kind Uint64V UintRange uint "\<lambda>w. w + 1" "\<lambda>w. True" uint "\<lambda>w. w"
  by unfold_locales simp_all

interpretation tuni: uniform_kind TimeV TimestampRange "\<lambda>t. t div 1000" "\<lambda>t. t + 1000" "\<lambda>t. 1000 dvd t" sint time_UnixMicro
  by unfold_locales (simp_all add: time_UnixMicro_def)

section \<open>Properties\<close>

text \<open>
  C4: splitting the range of a signed 64-bit column, also one that spans more than half of all
  values. For a positive number of partitions the loop ends without an error; the partitions
  are at most that many, in order and without overlap, hold every value from the minimum to
  the maximum and no other, and have different identifiers if the drawn ones differ.
\<close>

theorem int_range_partitioned:
  assumes "sint s \<le> sint e" and "0 < sint n"
  shows "\<exists>p rs. AddPartitionsWithRange uuid (Int64V s) (Int64V e) n (NewPartitionHelper k) = Inr p \<and>
     map Range (GetPartitions p) = map (\<lambda>r. Some (IntRange (fst r) (snd r))) rs \<and>
     separated sint rs \<and> covered sint rs = {sint s..sint e} \<and> int (length (GetPartitions p)) \<le> sint n \<and>
     (inj uuid \<longrightarrow> distinct (map PartitionId (GetPartitions p)))"
proof -
  from iuni.uniform_partitions [OF assms, of uuid "k + 1"] obtain p rs where
    p: "add_ranges uuid (\<lambda>w. Int64V w) s e n (NewPartitionHelper (k + 1)) = Inr p"
    "range_helper uuid Int64V IntRange p rs" "separated sint rs" "covered sint rs = {sint s..sint e}" "int (length rs) \<le> sint n"
    by blast
  have "AddPartitionsWithRange uuid (Int64V s) (Int64V e) n (NewPartitionHelper k) = Inr p"
    using p(1) by (simp add: AddPartitionsWithRange_def ikind.get range_partition_def NewPartitionHelper_def)
  moreover note r = range_helper_ranges [OF p(2)]
  moreover note range_helper_length [OF p(2)]
  ultimately show ?thesis using p(3-5) unfolding GetPartitions_def by auto
qed

theorem int_range_partitioned_witness:
  "\<exists>p. AddPartitionsWithRange (\<lambda>n. replicate n CHR ''a'') (Int64V (- 5)) (Int64V 4) 3 (NewPartitionHelper 0) = Inr p \<and>
     int (length (GetPartitions p)) \<le> 3 \<and>
     map Range (GetPartitions p) = [Some (IntRange (- 5) (- 2)), Some (IntRange (- 1) 1), Some (IntRange 2 4)]"
proof -
  let ?r = "AddPartitionsWithRange (\<lambda>n. replicate n CHR ''a'') (Int64V (- 5)) (Int64V 4) 3 (NewPartitionHelper 0)"
  from int_range_partitioned [of "- 5" 4 3 "\<lambda>n. replicate n CHR ''a''" 0] obtain p where
    "?r = Inr p" "int (length (GetPartitions p)) \<le> 3" by auto
  moreover have "(case ?r of Inr p \<Rightarrow> map Range (GetPartitions p) =
      [Some (IntRange (- 5) (- 2)), Some (IntRange (- 1) 1), Some (IntRange 2 4)] | _ \<Rightarrow> False)"
    by code_simp
  ultimately show ?thesis by auto
qed

text \<open>
  C36: the same for unsigned columns and for times. Times are partitioned by microseconds, the whole
  range between the microseconds of the minimum and the maximum.
\<close>

theorem uint_time_range_partitioned:
  assumes "0 < sint n" and "uint s \<le> uint e" and "t \<le> t'" and "- (2 ^ 63) \<le> t div 1000" and "t' div 1000 < 2 ^ 63"
  shows "(\<exists>p rs. AddPartitionsWithRange uuid (Uint64V s) (Uint64V e) n (NewPartitionHelper k) = Inr p \<and>
       map Range (GetPartitions p) = map (\<lambda>r. Some (UintRange (fst r) (snd r))) rs \<and>
       separated uint rs \<and> covered uint rs = {uint s..uint e} \<and> int (length (GetPartitions p)) \<le> sint n) \<and>
     (\<exists>p rs. AddPartitionsWithRange uuid (TimeV t) (TimeV t') n (NewPartitionHelper k) = Inr p \<and>
       map Range (GetPartitions p) = map (\<lambda>r. Some (TimestampRange (fst r) (snd r))) rs \<and>
       separated (\<lambda>x. x div 1000) rs \<and> covered (\<lambda>x. x div 1000) rs = {t div 1000..t' div 1000} \<and>
       int (length (GetPartitions p)) \<le> sint n)"
proof (intro conjI)
  from uuni.uniform_partitions [OF assms(2,1), of uuid "k + 1"] obtain p rs where
    p: "add_ranges uuid (\<lambda>w. Uint64V w) s e n (NewPartitionHelper (k + 1)) = Inr p"
    "range_helper uuid Uint64V UintRange p rs" "separated uint rs" "covered uint rs = {uint s..uint e}" "int (length rs) \<le> sint n"
    by blast
  have "AddPartitionsWithRange uuid (Uint64V s) (Uint64V e) n (NewPartitionHelper k) = Inr p"
    using p(1) by (simp add: AddPartitionsWithRange_def ukind.get range_partition_def NewPartitionHelper_def)
  with range_helper_ranges(1) [OF p(2)] range_helper_length [OF p(2)] p(3-5)
  show "\<exists>p rs. AddPartitionsWithRange uuid (Uint64V s) (Uint64V e) n (NewPartitionHelper k) = Inr p \<and>
       map Range (GetPartitions p) = map (\<lambda>r. Some (UintRange (fst r) (snd r))) rs \<and>
       separated uint rs \<and> covered uint rs = {uint s..uint e} \<and> int (length (GetPartitions p)) \<le> sint n"
    unfolding GetPartitions_def by auto
next
  have le: "t div 1000 \<le> t' div 1000" using assms(3) by (rule zdiv_mono1) simp
  have us: "sint (UnixMicro_of t) = t div 1000" "sint (UnixMicro_of t') = t' div 1000"
    using assms(4,5) le unfolding UnixMicro_of_def by (intro sint_of_int64; linarith)+
  then have "sint (UnixMicro_of t) \<le> sint (UnixMicro_of t')" using le by simp
  from tuni.uniform_partitions [OF this assms(1), of uuid "k + 1"] obtain p rs where
    p: "add_ranges uuid (\<lambda>w. TimeV (time_UnixMicro w)) (UnixMicro_of t) (UnixMicro_of t') n (NewPartitionHelper (k + 1)) = Inr p"
    "range_helper uuid TimeV TimestampRange p rs" "separated (\<lambda>x. x div 1000) rs"
    "covered (\<lambda>x. x div 1000) rs = {t div 1000..t' div 1000}" "int (length rs) \<le> sint n"
    unfolding us by blast
  have "AddPartitionsWithRange uuid (TimeV t) (TimeV t') n (NewPartitionHelper k) = Inr p"
    using p(1) by (simp add: AddPartitionsWithRange_def tkind.get range_partition_def NewPartitionHelper_def)
  with range_helper_ranges(1) [OF p(2)] range_helper_length [OF p(2)] p(3-5)
  show "\<exists>p rs. AddPartitionsWithRange uuid (TimeV t) (TimeV t') n (NewPartitionHelper k) = Inr p \<and>
       map Range (GetPartitions p) = map (\<lambda>r. Some (TimestampRange (fst r) (snd r))) rs \<and>
       separated (\<lambda>x. x div 1000) rs \<and> covered (\<lambda>x. x div 1000) rs = {t div 1000..t' div 1000} \<and>
       int (length (GetPartitions p)) \<le> sint n"
    unfolding GetPartitions_def by auto
qed

theorem uint_time_range_partitioned_witness:
  "\<exists>p rs. AddPartitionsWithRange (\<lambda>n. []) (TimeV 0) (TimeV 5000000) 2 (NewPartitionHelper 0) = Inr p \<and>
     map Range (GetPartitions p) = map (\<lambda>r. Some (TimestampRange (fst r) (snd r))) rs \<and>
     covered (\<lambda>x. x div 1000) rs = {0..5000}"
  using uint_time_range_partitioned [of 2 0 1 0 5000000 "\<lambda>n. []" 0] by auto

end
