(* ===== verification/Numeric.thy ===== *)
theory Numeric
  imports GoInt
begin

text \<open>
  Precision and scale of numeric columns (\<^verbatim>\<open>shared/datatypes/numeric.go\<close>, \<^verbatim>\<open>pkg/common/numeric.go\<close>,
  \<^verbatim>\<open>model/qvalue/dwh.go\<close>) and the number of partitions of a table (\<^verbatim>\<open>shared/math.go\<close>). Integers
  keep their width.
\<close>

unbundle bit_operations_syntax

section \<open>Type modifiers\<close>

definition VARHDRSZ :: "32 word" where
  "VARHDRSZ = 4"

text \<open>In Go \<^verbatim>\<open>|\<close> and \<^verbatim>\<open>+\<close> have the same precedence and associate to the left.\<close>

definition MakeNumericTypmod :: "32 word \<Rightarrow> 32 word \<Rightarrow> 32 word" where
  "MakeNumericTypmod precision scale =
     (if precision = 0 \<and> scale = 0 then -1
      else (push_bit 16 precision OR (scale AND 0x7ff)) + VARHDRSZ)"

definition ParseNumericTypmod :: "32 word \<Rightarrow> 16 word \<times> 16 word" where
  "ParseNumericTypmod typmod =
     (if typmod = -1 then (0, 0)
      else let offsetMod = typmod - 4 in
        (ucast (signed_drop_bit 16 offsetMod AND 0x7FFF), ucast (offsetMod AND 0x7FFF)))"

section \<open>Warehouses\<close>

record WarehouseNumericCompatibility =
  MaxPrecision :: "16 word"
  MaxScale :: "16 word"
  DefaultPrecisionAndScale :: "16 word \<times> 16 word"

definition ClickHouseNumericCompatibility :: WarehouseNumericCompatibility where
  "ClickHouseNumericCompatibility = \<lparr>MaxPrecision = 76, MaxScale = 76, DefaultPrecisionAndScale = (76, 38)\<rparr>"

definition SnowflakeNumericCompatibility :: WarehouseNumericCompatibility where
  "SnowflakeNumericCompatibility = \<lparr>MaxPrecision = 38, MaxScale = 37, DefaultPrecisionAndScale = (38, 20)\<rparr>"

definition BigQueryNumericCompatibility :: WarehouseNumericCompatibility where
  "BigQueryNumericCompatibility = \<lparr>MaxPrecision = 38, MaxScale = 20, DefaultPrecisionAndScale = (38, 20)\<rparr>"

definition DefaultNumericCompatibility :: WarehouseNumericCompatibility where
  "DefaultNumericCompatibility = \<lparr>MaxPrecision = 38, MaxScale = 37, DefaultPrecisionAndScale = (38, 20)\<rparr>"

definition IsValidPrecision :: "16 word \<Rightarrow> WarehouseNumericCompatibility \<Rightarrow> bool" where
  "IsValidPrecision precision w \<longleftrightarrow> sint precision \<le> sint (MaxPrecision w)"

definition IsValidPrecisionAndScale :: "16 word \<Rightarrow> 16 word \<Rightarrow> WarehouseNumericCompatibility \<Rightarrow> bool" where
  "IsValidPrecisionAndScale precision scale w \<longleftrightarrow> IsValidPrecision precision w \<and> sint scale \<le> sint (MaxScale w)"

definition GetNumericTypeForWarehousePrecisionScale ::
    "16 word \<Rightarrow> 16 word \<Rightarrow> WarehouseNumericCompatibility \<Rightarrow> 16 word \<times> 16 word" where
  "GetNumericTypeForWarehousePrecisionScale precision scale w =
     (if precision = 0 \<and> scale = 0 then DefaultPrecisionAndScale w
      else
        let precision = (if \<not> IsValidPrecision precision w then MaxPrecision w else precision) in
        if \<not> IsValidPrecisionAndScale precision scale w then DefaultPrecisionAndScale w
        else (precision, scale))"

definition GetNumericTypeForWarehouse :: "32 word \<Rightarrow> WarehouseNumericCompatibility \<Rightarrow> 16 word \<times> 16 word" where
  "GetNumericTypeForWarehouse typmod w =
     (if typmod = -1 then DefaultPrecisionAndScale w
      else let (precision, scale) = ParseNumericTypmod typmod in
        GetNumericTypeForWarehousePrecisionScale precision scale w)"

datatype DBType = BIGQUERY | SNOWFLAKE | MONGO | POSTGRES | S3 | SQLSERVER | MYSQL | CLICKHOUSE | KAFKA |
  PUBSUB | EVENTHUBS | ELASTICSEARCH | COCKROACHDB | DBTYPE_UNKNOWN

definition DetermineNumericSettingForDWH :: "16 word \<Rightarrow> 16 word \<Rightarrow> DBType \<Rightarrow> 16 word \<times> 16 word" where
  "DetermineNumericSettingForDWH precision scale dwh =
     GetNumericTypeForWarehousePrecisionScale precision scale
       (case dwh of
          CLICKHOUSE \<Rightarrow> ClickHouseNumericCompatibility
        | SNOWFLAKE \<Rightarrow> SnowflakeNumericCompatibility
        | BIGQUERY \<Rightarrow> BigQueryNumericCompatibility
        | _ \<Rightarrow> DefaultNumericCompatibility)"

section \<open>Reading a type modifier back\<close>

lemma parse_make:
  assumes "0 < uint p" and "uint p < 2 ^ 15"
  shows "ParseNumericTypmod (MakeNumericTypmod p s) = (ucast p, ucast (s AND 0x7ff))"
proof -
  let ?m = "push_bit 16 p OR (s AND mask 11)"
  have "uint (take_bit 15 p) = uint p" using assms(2) by (simp add: unsigned_take_bit_eq take_bit_int_eq_self)
  then have "take_bit 15 p = p" by (simp only: word_uint_eq_iff)
  then have high: "\<not> bit p n" if "15 \<le> n" for n using that by (metis bit_take_bit_iff not_le)
  have "\<not> bit ?m 31" using high [of 15] by (simp add: bit_simps)
  moreover have "bit (- 5 :: 32 word) 31" by simp
  ultimately have "?m \<noteq> - 5" by auto
  moreover have "?m = - 5" if "?m + 4 = - 1" using arg_cong [OF that, of "\<lambda>x. x - 4"] by simp
  ultimately have "?m + 4 \<noteq> - 1" by blast
  moreover have "p \<noteq> 0" using assms(1) by auto
  moreover have "signed_drop_bit 16 ?m AND mask 15 = p"
  proof (rule bit_word_eqI)
    fix n assume "n < LENGTH(32)"
    then show "bit (signed_drop_bit 16 ?m AND mask 15) n = bit p n"
      using high [of n] by (cases "n < 15") (auto simp: bit_simps min_def)
  qed
  moreover have "?m AND mask 15 = s AND mask 11"
    by (rule bit_word_eqI) (auto simp: bit_simps)
  moreover have "(0x7ff :: 32 word) = mask 11" "(0x7FFF :: 32 word) = mask 15" by (simp_all add: mask_eq_exp_minus_1)
  ultimately show ?thesis
    by (simp add: MakeNumericTypmod_def ParseNumericTypmod_def VARHDRSZ_def Let_def)
qed

section \<open>The contract of a warehouse\<close>

text \<open>
  A warehouse has limits for precision and scale, and its default type is within them; then so is
  every type chosen for a column.
\<close>

locale warehouse_numeric =
  fixes w :: WarehouseNumericCompatibility
  assumes default_precision: "sint (fst (DefaultPrecisionAndScale w)) \<le> sint (MaxPrecision w)"
    and default_scale: "sint (snd (DefaultPrecisionAndScale w)) \<le> sint (MaxScale w)"
    and default_fits: "0 \<le> sint (snd (DefaultPrecisionAndScale w))"
      "sint (snd (DefaultPrecisionAndScale w)) \<le> sint (fst (DefaultPrecisionAndScale w))"
begin

lemma chosen_within:
  "sint (fst (GetNumericTypeForWarehousePrecisionScale p s w)) \<le> sint (MaxPrecision w)"
  "sint (snd (GetNumericTypeForWarehousePrecisionScale p s w)) \<le> sint (MaxScale w)"
  using default_precision default_scale
  by (simp_all add: GetNumericTypeForWarehousePrecisionScale_def IsValidPrecisionAndScale_def IsValidPrecision_def Let_def)

lemma typmod_within:
  "sint (fst (GetNumericTypeForWarehouse t w)) \<le> sint (MaxPrecision w)"
  "sint (snd (GetNumericTypeForWarehouse t w)) \<le> sint (MaxScale w)"
  using default_precision default_scale chosen_within
  by (simp_all add: GetNumericTypeForWarehouse_def case_prod_unfold Let_def)

lemma kept_in_limits:
  assumes "\<not> (p = 0 \<and> s = 0)" and "sint p \<le> sint (MaxPrecision w)" and "sint s \<le> sint (MaxScale w)"
  shows "GetNumericTypeForWarehousePrecisionScale p s w = (p, s)"
  using assms
  by (auto simp: GetNumericTypeForWarehousePrecisionScale_def IsValidPrecisionAndScale_def IsValidPrecision_def)

end

interpretation chn: warehouse_numeric ClickHouseNumericCompatibility
  by unfold_locales (simp_all add: ClickHouseNumericCompatibility_def)

interpretation sfn: warehouse_numeric SnowflakeNumericCompatibility
  by unfold_locales (simp_all add: SnowflakeNumericCompatibility_def)

interpretation bqn: warehouse_numeric BigQueryNumericCompatibility
  by unfold_locales (simp_all add: BigQueryNumericCompatibility_def)

interpretation dfn: warehouse_numeric DefaultNumericCompatibility
  by unfold_locales (simp_all add: DefaultNumericCompatibility_def)

section \<open>Number of partitions\<close>

definition DivCeil :: "64 word \<Rightarrow> 64 word \<Rightarrow> (go_panic, 64 word) res" where
  "DivCeil x y = (if y = 0 then Inl IntegerDivideByZero else Inr (quot (x + y - 1) y))"

text \<open>Division of \<^verbatim>\<open>big.Int\<close> is Euclidean.\<close>

definition BigIntDivCeil :: "int \<Rightarrow> int \<Rightarrow> (go_panic, int) res" where
  "BigIntDivCeil x y = (let r = x + (y - 1) in
     if y = 0 then Inl IntegerDivideByZero else Inr (if y > 0 then r div y else - (r div (- y))))"

record AdjustedPartitions =
  AdjustedNumPartitions :: "64 word"
  AdjustedNumRowsPerPartition :: "64 word"

text \<open>The loop that rounds up to two significant figures.\<close>

lemma quot10_less: "100 \<le> sint x \<Longrightarrow> nat (sint (quot (9 + x) 10)) < nat (sint x)"
proof -
  assume x: "100 \<le> sint x"
  show ?thesis
  proof (cases "sint x + 9 < 2 ^ 63")
    case True
    have "sint (9 + x) = sint x + 9" using sint_arith64(1) [of 9 x] x True by simp
    then show ?thesis using sint_quot [of "9 + x" 10] x by simp
  next
    case False
    have "9 + x = word_of_int (sint x + 9 - 2 ^ 64)" by (simp add: wi_hom_syms)
    then have "sint (9 + x) = sint x + 9 - 2 ^ 64"
      using False sint64_range [of x] by (simp only:) (subst sint_of_int64, simp_all)
    then have "sint (9 + x) < 0" using sint64_range [of x] by simp
    then have "sint (9 + x) sdiv 10 \<le> 0" "- (2 ^ 63) \<le> sint (9 + x) sdiv 10"
      using sint64_range [of "9 + x"] by (simp_all add: signed_divide_int_def)
    then have "sint (quot (9 + x) 10) \<le> 0" by (simp add: quot_def sint_of_int64)
    then show ?thesis using x by simp
  qed
qed

function shrink_leading :: "64 word \<Rightarrow> 64 word \<Rightarrow> 64 word \<times> 64 word" where
  "shrink_leading leading scale =
     (if 100 \<le> sint leading then shrink_leading (quot (leading + 10 - 1) 10) (scale * 10) else (leading, scale))"
  by pat_completeness auto
termination
  by (relation "measure (\<lambda>(l, s). nat (sint l))") (use quot10_less in simp_all)

declare shrink_leading.simps [simp del]

definition AdjustNumPartitions :: "64 word \<Rightarrow> 64 word \<Rightarrow> (go_panic, AdjustedPartitions) res" where
  "AdjustNumPartitions totalRows desiredRowsPerPartition =
     bind_res (DivCeil totalRows desiredRowsPerPartition) (\<lambda>desiredPartitions.
       if sint desiredPartitions \<le> 1000 then
         Inr \<lparr>AdjustedNumPartitions = desiredPartitions, AdjustedNumRowsPerPartition = desiredRowsPerPartition\<rparr>
       else
         bind_res (DivCeil totalRows 1000) (\<lambda>leading.
         let (leading, scale) = shrink_leading leading 1; adjusted = leading * scale in
         bind_res (DivCeil totalRows adjusted) (\<lambda>n.
           Inr \<lparr>AdjustedNumPartitions = n, AdjustedNumRowsPerPartition = adjusted\<rparr>)))"

text \<open>Without overflow, the division rounds up.\<close>

lemma DivCeil_exact:
  assumes "0 \<le> sint x" and "0 < sint y" and "sint x + sint y \<le> 2 ^ 63"
  obtains q where "DivCeil x y = Inr q" and "sint y * (sint q - 1) < sint x" and "sint x \<le> sint y * sint q"
    and "0 \<le> sint q"
proof -
  have "fits64 (sint x + (sint y - 1))" and "fits64 (sint y - 1)"
    using assms sint64_range [of y] by simp_all
  then have "sint (x + (y - 1)) = sint x + (sint y - 1)"
    using sint_arith64(1) [of x "y - 1"] sint_arith64(2) [of y 1] by simp
  then have s: "sint (x + y - 1) = sint x + sint y - 1" by (simp add: add_diff_eq)
  then have q: "sint (quot (x + y - 1) y) = (sint x + sint y - 1) div sint y"
    using sint_quot [of "x + y - 1" y] assms by simp
  have "y \<noteq> 0" using assms(2) by auto
  then have "DivCeil x y = Inr (quot (x + y - 1) y)" by (simp add: DivCeil_def)
  moreover
  let ?q = "(sint x + sint y - 1) div sint y"
  have "sint x + sint y - 1 = sint y * ?q + (sint x + sint y - 1) mod sint y" by simp
  moreover have "0 \<le> (sint x + sint y - 1) mod sint y" "(sint x + sint y - 1) mod sint y < sint y"
    using assms(2) by simp_all
  ultimately have "DivCeil x y = Inr (quot (x + y - 1) y)" "sint y * (?q - 1) < sint x" "sint x \<le> sint y * ?q"
    by (simp_all only: right_diff_distrib)
  moreover have "0 \<le> ?q" using assms by (simp add: pos_imp_zdiv_nonneg_iff)
  ultimately show ?thesis using that [of "quot (x + y - 1) y"] q by simp
qed

text \<open>
  The pair of the loop brackets the value it started from; the leading part ends with two digits
  unless it never had them.
\<close>

definition brackets :: "int \<Rightarrow> 64 word \<Rightarrow> 64 word \<Rightarrow> bool" where
  "brackets n l s \<longleftrightarrow> 0 < sint l \<and> 0 < sint s \<and> sint s * (sint l - 1) < n \<and> n \<le> sint s * sint l \<and>
     (sint s = 1 \<or> 10 \<le> sint l)"

lemma brackets_step:
  assumes "brackets n l s" and "n \<le> 2 ^ 61" and "100 \<le> sint l" and "sint l \<le> 2 ^ 62"
  shows "brackets n (quot (l + 10 - 1) 10) (s * 10)" and "sint (quot (l + 10 - 1) 10) \<le> sint l"
proof -
  obtain q where q: "DivCeil l 10 = Inr q" "10 * (sint q - 1) < sint l" "sint l \<le> 10 * sint q" "0 \<le> sint q"
    using DivCeil_exact [of l 10] assms(3,4) by auto
  have qeq: "quot (l + 10 - 1) 10 = q" using q(1) by (simp add: DivCeil_def)
  have pos: "0 < sint s" using assms(1) by (simp add: brackets_def)
  have "sint s * 99 \<le> sint s * (sint l - 1)" using assms(3) pos by (intro mult_left_mono) simp_all
  also have "\<dots> < n" using assms(1) by (simp only: brackets_def)
  finally have "sint s * 99 < n" .
  then have s10: "sint (s * 10) = sint s * 10"
    using sint_arith64(3) [of s 10] assms(2) pos by simp
  have "sint s * (10 * (sint q - 1)) \<le> sint s * (sint l - 1)" using q(2) pos by (intro mult_left_mono) simp_all
  also have "\<dots> < n" using assms(1) by (simp only: brackets_def)
  finally have hi: "sint (s * 10) * (sint q - 1) < n" by (simp only: s10 mult.assoc)
  have "n \<le> sint s * sint l" using assms(1) by (simp only: brackets_def)
  also have "\<dots> \<le> sint s * (10 * sint q)" using q(3) pos by (intro mult_left_mono) simp_all
  finally have "n \<le> sint (s * 10) * sint q" by (simp only: s10 mult.assoc)
  with hi show "brackets n (quot (l + 10 - 1) 10) (s * 10)"
    using assms(3) q(3) pos unfolding brackets_def qeq by (auto simp only: s10)
  show "sint (quot (l + 10 - 1) 10) \<le> sint l" using q(2) qeq assms(3) by simp
qed

lemma shrink_brackets:
  assumes "brackets n l s" and "n \<le> 2 ^ 61" and "sint l \<le> 2 ^ 62" and "shrink_leading l s = (l', s')"
  shows "brackets n l' s'"
  using assms
proof (induction l s rule: shrink_leading.induct)
  case (1 l s)
  show ?case
  proof (cases "100 \<le> sint l")
    case True
    note step = brackets_step [OF 1(2,3) True 1(4)]
    from True 1(5) have "shrink_leading (quot (l + 10 - 1) 10) (s * 10) = (l', s')"
      by (subst (asm) shrink_leading.simps) simp
    then show ?thesis using 1(1) [OF True step(1) 1(3)] step(2) 1(4) by simp
  next
    case False
    with 1(5) have "(l, s) = (l', s')" by (subst (asm) shrink_leading.simps) simp
    with 1(2) show ?thesis by simp
  qed
qed

lemma brackets_product:
  assumes "brackets n l s" and "n \<le> 2 ^ 61"
  shows "sint (l * s) = sint l * sint s" and "n \<le> sint (l * s)" and "sint (l * s) \<le> 2 ^ 62"
proof -
  have pos: "0 < sint s" "0 < sint l" using assms(1) by (simp_all add: brackets_def)
  have "sint s \<le> n"
  proof (cases "sint s = 1")
    case True
    then show ?thesis using assms(1) pos(2) by (simp add: brackets_def)
  next
    case False
    then have "sint s * 9 \<le> sint s * (sint l - 1)"
      using assms(1) pos by (intro mult_left_mono) (simp_all add: brackets_def)
    also have "\<dots> < n" using assms(1) by (simp only: brackets_def)
    finally show ?thesis using pos by linarith
  qed
  then have "sint s * sint l \<le> 2 * n" using assms(1) by (simp add: brackets_def right_diff_distrib)
  then have "sint l * sint s \<le> 2 ^ 62" using assms(2) by (simp add: mult.commute)
  moreover have "0 \<le> sint l * sint s" using pos by simp
  ultimately show eq: "sint (l * s) = sint l * sint s" and "sint (l * s) \<le> 2 ^ 62"
    using sint_arith64(3) [of l s] by simp_all
  then show "n \<le> sint (l * s)" using assms(1) by (simp add: brackets_def mult.commute)
qed

text \<open>The number of partitions for a bracketed number of rows per partition.\<close>

lemma partitions_in_range:
  fixes T n A q l s :: int
  assumes "1000 * (n - 1) < T" and "T \<le> 1000 * n" and "s * (l - 1) < n" and "n \<le> A" and "A = l * s"
    and "A * (q - 1) < T" and "T \<le> A * q" and "0 < s" and "0 < l"
  shows "q \<le> 1000" and "2 \<le> l \<Longrightarrow> 501 \<le> q" and "10 \<le> l \<Longrightarrow> 901 \<le> q"
proof -
  have A: "0 < A" using assms(5,8,9) by simp
  have "A * (q - 1) < 1000 * A" using assms(2,4,6) by linarith
  then have "A * (q - 1) < A * 1000" by (simp add: mult.commute)
  then show "q \<le> 1000" using A by (simp add: mult_less_cancel_left)
  have "s * (l - 1) \<le> n - 1" using assms(3) by simp
  then have "1000 * (s * (l - 1)) \<le> 1000 * (n - 1)" by (rule mult_left_mono) simp
  then have low: "1000 * (s * (l - 1)) < A * q" using assms(1,7) by linarith
  then have "s * (1000 * (l - 1)) < s * (l * q)" using assms(5) by (simp add: algebra_simps)
  then have key: "1000 * (l - 1) < l * q" using assms(8) by (simp add: mult_less_cancel_left)
  show "501 \<le> q" if "2 \<le> l"
  proof (rule ccontr)
    assume "\<not> 501 \<le> q"
    then have "l * q \<le> l * 500" using that by (intro mult_left_mono) simp_all
    with key that show False by simp
  qed
  show "901 \<le> q" if "10 \<le> l"
  proof (rule ccontr)
    assume "\<not> 901 \<le> q"
    then have "l * q \<le> l * 900" using that by (intro mult_left_mono) simp_all
    with key that show False by simp
  qed
qed

section \<open>Properties\<close>

lemma AdjustNumPartitions_bounds:
  assumes "0 < sint totalRows" and "sint totalRows \<le> 2 ^ 60" and "0 < sint desired" and "sint desired \<le> 2 ^ 60"
  obtains a where "AdjustNumPartitions totalRows desired = Inr a"
    and "1 \<le> sint (AdjustedNumPartitions a)" and "sint (AdjustedNumPartitions a) \<le> 1000"
    and "sint totalRows \<le> sint (AdjustedNumRowsPerPartition a) * sint (AdjustedNumPartitions a)"
    and "AdjustedNumRowsPerPartition a \<noteq> desired \<Longrightarrow>
      501 \<le> sint (AdjustedNumPartitions a) \<and> (9000 < sint totalRows \<longrightarrow> 901 \<le> sint (AdjustedNumPartitions a))"
proof -
  obtain d where d: "DivCeil totalRows desired = Inr d" "sint desired * (sint d - 1) < sint totalRows"
    "sint totalRows \<le> sint desired * sint d" "0 \<le> sint d"
    using DivCeil_exact [of totalRows desired] assms by auto
  have d0: "sint d \<noteq> 0" using d(3) assms(1) by auto
  show ?thesis
  proof (cases "sint d \<le> 1000")
    case True
    then show ?thesis using d d0
      by (intro that [of "\<lparr>AdjustedNumPartitions = d, AdjustedNumRowsPerPartition = desired\<rparr>"])
         (simp_all add: AdjustNumPartitions_def)
  next
    case False
    obtain n where n: "DivCeil totalRows 1000 = Inr n" "1000 * (sint n - 1) < sint totalRows"
      "sint totalRows \<le> 1000 * sint n" "0 \<le> sint n"
      using DivCeil_exact [of totalRows 1000] assms(1,2) by auto
    have "sint desired * 1000 \<le> sint desired * (sint d - 1)" using False assms(3) by (intro mult_left_mono) simp_all
    also note d(2)
    finally have T: "1000 < sint totalRows" using assms(3) by linarith
    have n2: "2 \<le> sint n" using n(3) T by simp
    obtain l s where ls: "shrink_leading n 1 = (l, s)" by fastforce
    have le: "sint n \<le> 2 ^ 61" using n(2) assms(2) by simp
    have "brackets (sint n) n 1" using n2 by (simp add: brackets_def)
    from shrink_brackets [OF this le _ ls] le have b: "brackets (sint n) l s" by simp
    note A = brackets_product [OF b le]
    from A(2) n2 have Apos: "0 < sint (l * s)" by simp
    obtain q where q: "DivCeil totalRows (l * s) = Inr q" "sint (l * s) * (sint q - 1) < sint totalRows"
      "sint totalRows \<le> sint (l * s) * sint q" "0 \<le> sint q"
      using DivCeil_exact [of totalRows "l * s"] assms(1,2) A(3) Apos by auto
    have ls': "0 < sint s" "0 < sint l" "sint s * (sint l - 1) < sint n" "sint n \<le> sint s * sint l" "sint s = 1 \<or> 10 \<le> sint l"
      using b by (simp_all add: brackets_def)
    note range = partitions_in_range [OF n(2,3) ls'(3) A(2) A(1) q(2,3) ls'(1,2)]
    have l2: "2 \<le> sint l" using ls' n2 by auto
    have l10: "10 \<le> sint l" if "9000 < sint totalRows" using ls' n(3) that by auto
    have "AdjustNumPartitions totalRows desired = Inr \<lparr>AdjustedNumPartitions = q, AdjustedNumRowsPerPartition = l * s\<rparr>"
      using d(1) n(1) q(1) False ls by (simp add: AdjustNumPartitions_def)
    then show ?thesis using range(1) range(2) [OF l2] range(3) [OF l10] q(3)
      by (intro that [of "\<lparr>AdjustedNumPartitions = q, AdjustedNumRowsPerPartition = l * s\<rparr>"]) simp_all
  qed
qed

text \<open>
  C33: for a positive number of rows, the adjusted partitioning has between 1 and 1000 partitions
  whose rows suffice for the table. If the rows per partition were adjusted there are at least
  501 partitions, and at least 901 for a table of more than 9000 rows.
\<close>

theorem AdjustNumPartitions_range:
  assumes "0 < sint totalRows" and "sint totalRows \<le> 2 ^ 60" and "0 < sint desired" and "sint desired \<le> 2 ^ 60"
  shows "\<exists>a. AdjustNumPartitions totalRows desired = Inr a \<and>
     1 \<le> sint (AdjustedNumPartitions a) \<and> sint (AdjustedNumPartitions a) \<le> 1000 \<and>
     sint totalRows \<le> sint (AdjustedNumRowsPerPartition a) * sint (AdjustedNumPartitions a) \<and>
     (AdjustedNumRowsPerPartition a \<noteq> desired \<longrightarrow> 501 \<le> sint (AdjustedNumPartitions a)) \<and>
     (AdjustedNumRowsPerPartition a \<noteq> desired \<longrightarrow> 9000 < sint totalRows \<longrightarrow> 901 \<le> sint (AdjustedNumPartitions a))"
  using AdjustNumPartitions_bounds [OF assms] by metis

theorem AdjustNumPartitions_range_witness:
  "\<exists>a. AdjustNumPartitions 10000001 5 = Inr a \<and> AdjustedNumRowsPerPartition a = 11000 \<and>
     901 \<le> sint (AdjustedNumPartitions a)"
proof -
  have "case AdjustNumPartitions 10000001 5 of Inr a \<Rightarrow> AdjustedNumRowsPerPartition a = 11000 | _ \<Rightarrow> False"
    by code_simp
  then obtain a where a: "AdjustNumPartitions 10000001 5 = Inr a" "AdjustedNumRowsPerPartition a = 11000"
    by (auto split: sum.splits)
  with AdjustNumPartitions_range [of 10000001 5] show ?thesis by auto
qed

text \<open>
  C34: the type chosen for a numeric column of a warehouse is within the limits of the warehouse, and a
  precision and scale within the limits are kept, also where the scale is larger than the precision.
\<close>

theorem numeric_type_within_limits:
  assumes "w \<in> {ClickHouseNumericCompatibility, SnowflakeNumericCompatibility, BigQueryNumericCompatibility,
      DefaultNumericCompatibility}"
  shows "sint (fst (GetNumericTypeForWarehouse typmod w)) \<le> sint (MaxPrecision w) \<and>
     sint (snd (GetNumericTypeForWarehouse typmod w)) \<le> sint (MaxScale w) \<and>
     (0 < sint p \<longrightarrow> sint p \<le> sint (MaxPrecision w) \<longrightarrow> sint s \<le> sint (MaxScale w) \<longrightarrow>
        GetNumericTypeForWarehousePrecisionScale p s w = (p, s))"
proof (cases "0 < sint p")
  case True
  then have "p \<noteq> 0" by auto
  with assms show ?thesis
    by (auto simp: chn.typmod_within sfn.typmod_within bqn.typmod_within dfn.typmod_within
        chn.kept_in_limits sfn.kept_in_limits bqn.kept_in_limits dfn.kept_in_limits)
next
  case False
  with assms show ?thesis
    by (auto simp: chn.typmod_within sfn.typmod_within bqn.typmod_within dfn.typmod_within)
qed

theorem numeric_type_within_limits_witness:
  "GetNumericTypeForWarehousePrecisionScale 3 5 ClickHouseNumericCompatibility = (3, 5)"
  using numeric_type_within_limits [of ClickHouseNumericCompatibility 0 3 5]
  by (simp add: ClickHouseNumericCompatibility_def)

text \<open>
  C35: a type modifier gives back the precision it was made of, and the scale modulo 2048. So a scale
  from 0 to 2047 is read back, and a negative one, which PostgreSQL has since version 15, is not.
\<close>

theorem numeric_typmod_roundtrip:
  assumes "0 < uint precision" and "uint precision < 2 ^ 15"
  shows "uint (fst (ParseNumericTypmod (MakeNumericTypmod precision scale))) = uint precision \<and>
     uint (snd (ParseNumericTypmod (MakeNumericTypmod precision scale))) = sint scale mod 2048"
proof -
  have "uint (ucast precision :: 16 word) = uint precision"
    using assms by (simp add: unsigned_ucast_eq take_bit_int_eq_self)
  moreover have "uint (ucast (scale AND 0x7ff) :: 16 word) = sint scale mod 2048"
  proof -
    have "(0x7ff :: 32 word) = mask 11" by (simp add: mask_eq_exp_minus_1)
    then have "scale AND 0x7ff = take_bit 11 scale" by (simp add: take_bit_eq_mask)
    moreover have "uint (take_bit 11 scale) = take_bit 11 (uint scale)" by (simp add: unsigned_take_bit_eq)
    moreover have "take_bit 11 (uint scale) = take_bit 11 (sint scale)" by (simp add: uint_sint)
    ultimately have "uint (scale AND 0x7ff) = sint scale mod 2048" by (simp add: take_bit_eq_mod)
    then show ?thesis by (simp add: unsigned_ucast_eq take_bit_int_eq_self)
  qed
  ultimately show ?thesis by (simp add: parse_make [OF assms])
qed

theorem numeric_typmod_roundtrip_witness:
  "uint (fst (ParseNumericTypmod (MakeNumericTypmod 10 (- 2)))) = 10 \<and>
   uint (snd (ParseNumericTypmod (MakeNumericTypmod 10 (- 2)))) = 2046"
  using numeric_typmod_roundtrip [of 10 "- 2"] by simp

end
