(* ===== verification/PgPartition.thy ===== *)
theory PgPartition
  imports Partition Numeric Identifiers "HOL-Library.Char_ord" "HOL-Library.List_Lexorder"
begin

text \<open>
  \<^verbatim>\<open>connectors/postgres/qrep_partition.go\<close> and \<^verbatim>\<open>getPartitions\<close> of \<^verbatim>\<open>qrep_source.go\<close>: how a PostgreSQL
  table is divided for the initial load, by buckets of rows, by the range of a column or by blocks. The
  answers of the database to the queries are a parameter, as a function of what the code puts into
  the query. Floating-point multiplication is a parameter too.
\<close>

section \<open>The database\<close>

record tableClassification =
  qualifiedName :: string
  relkind :: string
  tcOid :: "32 word"
  relhassubclass :: bool

text \<open>\<open>blockDensity\<close> holds the bits of a \<^verbatim>\<open>float64\<close>; \<open>blockCount\<close> the value of an \<^verbatim>\<open>int64\<close>.\<close>

record tableBlockStats =
  blockDensity :: "64 word"
  blockCount :: int

record tableInfo =
  tiName :: string
  tiKind :: string
  tiBlocks :: int
  tiDensity :: "64 word"
  tiOid :: "32 word"
  tiHasSubclass :: bool

text \<open>
  A query gives an error, or rows of which each may fail to be read, with an error at the end of the rows
  at last.
\<close>

type_synonym 'a rows = "(string, (string, 'a) res list \<times> string option) res"

record pg_tx =
  ntile_query :: "64 word \<Rightarrow> string \<Rightarrow> string \<Rightarrow> any_value \<Rightarrow> (any_value \<times> any_value) rows"
  minmax_query :: "string \<Rightarrow> string \<Rightarrow> any_value \<Rightarrow> (string, any_value \<times> any_value) res"
  block_count_query :: "string \<Rightarrow> (string, int) res"
  classify_query :: "string \<Rightarrow> (string, tableClassification option) res"
  partitions_query :: "32 word \<Rightarrow> tableInfo rows"
  relation_size_query :: "32 word \<Rightarrow> (string, int \<times> 64 word) res"
  children_query :: "32 word \<Rightarrow> tableInfo rows"
  estimate_query :: "string \<Rightarrow> (string, 64 word option) res"
  count_query :: "string \<Rightarrow> string \<Rightarrow> any_value \<Rightarrow> (string, 64 word) res"
  float_rows :: "64 word \<Rightarrow> int \<Rightarrow> 64 word"

datatype pg_part_error =
    QueryFailed string string
  | ScanFailed string
  | RowsFailed string
  | HelperFailed string part_error
  | RuntimePanic go_panic
  | NonPositivePartitions
  | TableNotFound string
  | NestedFailed string pg_part_error
  | BadWatermarkTable
  | UnknownRangeType

record PartitionParams =
  ppTx :: pg_tx
  lastRangeEnd :: any_value
  watermarkTable :: string
  watermarkColumn :: string
  numPartitions :: "64 word"
  addNullPartition :: bool

text \<open>All rows of a query, unless one cannot be read.\<close>

fun scan_rows :: "(string, 'a) res list \<Rightarrow> (pg_part_error, 'a list) res" where
  "scan_rows [] = Inr []"
| "scan_rows (Inl e # rs) = Inl (ScanFailed e)"
| "scan_rows (Inr x # rs) = bind_res (scan_rows rs) (\<lambda>xs. Inr (x # xs))"

definition all_rows :: "string \<Rightarrow> 'a rows \<Rightarrow> (pg_part_error, 'a list) res" where
  "all_rows what q = (case q of
     Inl e \<Rightarrow> Inl (QueryFailed what e)
   | Inr (rs, err) \<Rightarrow> bind_res (scan_rows rs) (\<lambda>xs.
       case err of Some e \<Rightarrow> Inl (RowsFailed e) | None \<Rightarrow> Inr xs))"

definition helper_err :: "string \<Rightarrow> (part_error, 'a) res \<Rightarrow> (pg_part_error, 'a) res" where
  "helper_err s r = (case r of
     Inr x \<Rightarrow> Inr x
   | Inl (PartPanic p) \<Rightarrow> Inl (RuntimePanic p)
   | Inl e \<Rightarrow> Inl (HelperFailed s e))"

definition nested_err :: "string \<Rightarrow> (pg_part_error, 'a) res \<Rightarrow> (pg_part_error, 'a) res" where
  "nested_err s r = (case r of
     Inr x \<Rightarrow> Inr x
   | Inl (RuntimePanic p) \<Rightarrow> Inl (RuntimePanic p)
   | Inl e \<Rightarrow> Inl (NestedFailed s e))"

section \<open>Buckets of rows\<close>

fun ntile_loop ::
    "(nat \<Rightarrow> string) \<Rightarrow> (string, any_value \<times> any_value) res list \<Rightarrow> PartitionHelper \<Rightarrow> (pg_part_error, PartitionHelper) res" where
  "ntile_loop uuid [] p = Inr p"
| "ntile_loop uuid (Inl e # rs) p = Inl (ScanFailed e)"
| "ntile_loop uuid (Inr (s, e) # rs) p =
     bind_res (helper_err ''failed to add partition'' (AddPartition uuid s e p)) (ntile_loop uuid rs)"

definition NTileBucketPartitioningFunc ::
    "(nat \<Rightarrow> string) \<Rightarrow> PartitionParams \<Rightarrow> (pg_part_error, QRepPartition list) res" where
  "NTileBucketPartitioningFunc uuid pp =
     (case ntile_query (ppTx pp) (numPartitions pp) (watermarkColumn pp) (watermarkTable pp) (lastRangeEnd pp) of
        Inl e \<Rightarrow> Inl (QueryFailed ''failed to query for partitions'' e)
      | Inr (rows, err) \<Rightarrow>
          bind_res (ntile_loop uuid rows (NewPartitionHelper 0)) (\<lambda>p.
          case err of
            Some e \<Rightarrow> Inl (RowsFailed e)
          | None \<Rightarrow> Inr (GetPartitions (if addNullPartition pp then AddNullPartition uuid p else p))))"

section \<open>Ranges of a column\<close>

definition MinMaxRangePartitioningFunc ::
    "(nat \<Rightarrow> string) \<Rightarrow> PartitionParams \<Rightarrow> (pg_part_error, QRepPartition list) res" where
  "MinMaxRangePartitioningFunc uuid pp =
     (if sint (numPartitions pp) \<le> 0 then Inl NonPositivePartitions
      else case minmax_query (ppTx pp) (watermarkTable pp) (watermarkColumn pp) (lastRangeEnd pp) of
        Inl e \<Rightarrow> Inl (QueryFailed ''failed to query for partitions'' e)
      | Inr (start, end) \<Rightarrow>
          bind_res (helper_err ''failed to add partitions''
            (AddPartitionsWithRange uuid start end (numPartitions pp) (NewPartitionHelper 0))) (\<lambda>p.
          Inr (GetPartitions (if addNullPartition pp then AddNullPartition uuid p else p))))"

section \<open>Blocks of one table\<close>

definition tidCmp :: "pgTID \<Rightarrow> pgTID \<Rightarrow> int" where
  "tidCmp a b =
     (let blockCmp = cmp_Compare (uint (pgBlockNumber a)) (uint (pgBlockNumber b)) in
      if blockCmp \<noteq> 0 then blockCmp else cmp_Compare (uint (pgOffsetNumber a)) (uint (pgOffsetNumber b)))"

definition tidInc :: "pgTID \<Rightarrow> pgTID" where
  "tidInc t =
     (if pgOffsetNumber t < 0xFFFF
      then \<lparr>pgBlockNumber = pgBlockNumber t, pgOffsetNumber = pgOffsetNumber t + 1, pgValid = True\<rparr>
      else \<lparr>pgBlockNumber = pgBlockNumber t + 1, pgOffsetNumber = 0, pgValid = True\<rparr>)"

definition tidRangeForPartition :: "64 word \<Rightarrow> 64 word \<Rightarrow> 64 word \<Rightarrow> (pgTID \<times> pgTID) option" where
  "tidRangeForPartition totalBlocks n i =
     (let blockStart = ucast (quot (i * totalBlocks) n) :: 32 word;
          nextPartitionBlockStart = ucast (quot ((i + 1) * totalBlocks) n) in
      if nextPartitionBlockStart \<le> blockStart then None
      else Some (\<lparr>pgBlockNumber = blockStart, pgOffsetNumber = 0, pgValid = True\<rparr>,
                 \<lparr>pgBlockNumber = nextPartitionBlockStart - 1, pgOffsetNumber = 0xFFFF, pgValid = True\<rparr>))"

definition ctid_partition ::
    "(nat \<Rightarrow> string) \<Rightarrow> 64 word \<Rightarrow> 64 word \<Rightarrow> pgTID \<Rightarrow> nat \<Rightarrow> PartitionHelper \<Rightarrow> (pg_part_error, PartitionHelper) res" where
  "ctid_partition uuid totalBlocks n resumeFrom i p = (case tidRangeForPartition totalBlocks n (of_nat i) of
     None \<Rightarrow> Inr p
   | Some (start, end) \<Rightarrow>
       if pgValid resumeFrom \<and> tidCmp end resumeFrom < 0 then Inr p
       else
         let start = (if pgValid resumeFrom \<and> tidCmp start resumeFrom < 0 then resumeFrom else start) in
         helper_err ''failed to add TID partition''
           (AddPartition uuid (TIDV (start\<lparr>pgValid := True\<rparr>)) (TIDV (end\<lparr>pgValid := True\<rparr>)) p))"

definition ctidPartitionsForTable ::
    "(nat \<Rightarrow> string) \<Rightarrow> PartitionParams \<Rightarrow> (pg_part_error, QRepPartition list) res" where
  "ctidPartitionsForTable uuid pp = (case block_count_query (ppTx pp) (watermarkTable pp) of
     Inl e \<Rightarrow> Inl (QueryFailed ''failed to get block count'' e)
   | Inr totalBlocks \<Rightarrow>
       if totalBlocks = 0 then Inr []
       else
         let resumeFrom = (case lastRangeEnd pp of TIDV t \<Rightarrow> tidInc t
               | _ \<Rightarrow> \<lparr>pgBlockNumber = 0, pgOffsetNumber = 0, pgValid = False\<rparr>) in
         bind_res (fold_res (ctid_partition uuid (word_of_int totalBlocks) (numPartitions pp) resumeFrom)
             [0..<nat (sint (numPartitions pp))] (NewPartitionHelper 0)) (\<lambda>p.
           Inr (GetPartitions p)))"

section \<open>Blocks of child tables\<close>

text \<open>
  The two loops over the sorted tables; the remaining tables stand for the index into them, the
  first one is read from the block \<open>blockOffset\<close> on.
\<close>

function fill_partition ::
    "int \<Rightarrow> int \<Rightarrow> (string \<times> int) list \<Rightarrow> ChildTableRange list \<times> int \<times> (string \<times> int) list" where
  "fill_partition remaining blockOffset tables =
     (if remaining > 0 \<and> tables \<noteq> [] then
        let (tableName, blocks) = hd tables;
            remainingBlocks = blocks - blockOffset;
            consume = min remaining remainingBlocks;
            r = \<lparr>ctTable = tableName, ctStart = word_of_int blockOffset, ctEnd = word_of_int (blockOffset + consume) - 1\<rparr>;
            (ranges, rest) =
              (if blockOffset + consume \<ge> blocks then fill_partition (remaining - consume) 0 (tl tables)
               else fill_partition (remaining - consume) (blockOffset + consume) tables)
        in (r # ranges, rest)
      else ([], blockOffset, tables))"
  by pat_completeness auto
termination
  by (relation "measures [\<lambda>(r, b, ts). length ts, \<lambda>(r, b, ts). nat r]") (auto simp: min_def split: if_splits)

declare fill_partition.simps [simp del]

lemma fill_partition_done [simp]: "r \<le> 0 \<or> ts = [] \<Longrightarrow> fill_partition r b ts = ([], b, ts)"
  by (subst fill_partition.simps) auto

text \<open>One round of the inner loop: it uses up the first table, or the partition.\<close>

lemma fill_partition_table:
  assumes "0 < r" and "o' = min r (blocks - b)"
  shows "fill_partition r b ((name, blocks) # ts) =
    (let rng = \<lparr>ctTable = name, ctStart = word_of_int b, ctEnd = word_of_int (b + o') - 1\<rparr> in
     if blocks - b \<le> r then apfst (Cons rng) (fill_partition (r - (blocks - b)) 0 ts)
     else ([rng], b + r, (name, blocks) # ts))"
  using assms by (subst fill_partition.simps) (auto simp: Let_def case_prod_unfold apfst_def map_prod_def min_def)

lemma fill_partition_length: "length (snd (snd (fill_partition r b ts))) \<le> length ts"
proof (induction ts arbitrary: r b)
  case (Cons t ts)
  obtain name blocks where t: "t = (name, blocks)" by fastforce
  have le: "length (snd (snd (fill_partition r' b' ts))) \<le> Suc (length ts)" for r' b'
    using Cons [of r' b'] by simp
  show ?case
    using le unfolding t by (cases "0 < r") (simp_all add: fill_partition_table [OF _ refl] Let_def)
qed simp

lemma fill_partition_progress:
  assumes "fill_partition r b ts = (rs, b', ts')" and "0 < r" and "ts \<noteq> []"
  shows "length ts' < length ts \<or> ts' = ts \<and> b < b' \<and> b' < snd (hd ts)"
proof -
  obtain name blocks tl where ts: "ts = (name, blocks) # tl" using assms(3) by (metis list.exhaust surj_pair)
  show ?thesis
  proof (cases "blocks - b \<le> r")
    case True
    then have "ts' = snd (snd (fill_partition (r - (blocks - b)) 0 tl))"
      using assms(1,2) unfolding ts
      by (cases "fill_partition (r - (blocks - b)) 0 tl") (auto simp: fill_partition_table [OF _ refl] Let_def)
    then show ?thesis using fill_partition_length [of "r - (blocks - b)" 0 tl] ts by simp
  next
    case False
    then show ?thesis using assms(1,2) unfolding ts by (auto simp: fill_partition_table [OF _ refl] Let_def)
  qed
qed

function child_partitions ::
    "int \<Rightarrow> int \<Rightarrow> (string \<times> int) list \<Rightarrow> ChildTableRange list list" where
  "child_partitions blocksPerPartition blockOffset tables =
     (if tables = [] \<or> blocksPerPartition \<le> 0 then []
      else let (ranges, blockOffset', tables') = fill_partition blocksPerPartition blockOffset tables in
        (if ranges \<noteq> [] then [ranges] else []) @ child_partitions blocksPerPartition blockOffset' tables')"
  by pat_completeness auto
termination
proof (relation "measures [\<lambda>(r, b, ts). length ts, \<lambda>(r, b, ts). nat (snd (hd ts) - b)]")
  fix r b ts x rs y b' ts'
  assume a: "\<not> (ts = [] \<or> r \<le> 0)" and eq: "x = fill_partition r b ts" "(rs, y) = x" "(b', ts') = y"
  then have "fill_partition r b ts = (rs, b', ts')" by simp
  from fill_partition_progress [OF this] a
  show "((r, b', ts'), r, b, ts) \<in> measures [\<lambda>(r, b, ts). length ts, \<lambda>(r, b, ts). nat (snd (hd ts) - b)]"
    by auto
qed simp

declare child_partitions.simps [simp del]

definition child_partition :: "string \<Rightarrow> ChildTableRange list \<Rightarrow> QRepPartition" where
  "child_partition i rs = \<lparr>PartitionId = i, Range = None, FullTablePartition = False, ChildTableRanges = rs\<rparr>"

text \<open>
  \<open>blockStatsPerTable\<close> is a Go map; its keys are visited in the order of the names. The blocks of each
  partition are at least one, so the second test of the loop above is never needed.
\<close>

definition ctidPartitionsForChildTables ::
    "(nat \<Rightarrow> string) \<Rightarrow> PartitionParams \<Rightarrow> (string, tableBlockStats) gomap \<Rightarrow> (pg_part_error, QRepPartition list) res" where
  "ctidPartitionsForChildTables uuid pp stats =
     (let totalBlocks = word_of_int (sum_list (map (\<lambda>s. blockCount (snd s)) stats)) :: 64 word in
      if totalBlocks = 0 then Inr []
      else
        case DivCeil totalBlocks (numPartitions pp) of
          Inl p \<Rightarrow> Inl (RuntimePanic p)
        | Inr d \<Rightarrow>
            let blocksPerPartition = max 1 (sint d);
                sortedTables = map (\<lambda>s. (fst s, blockCount (snd s))) (sort_key fst stats)
            in Inr (map2 child_partition (map uuid [0..<length (child_partitions blocksPerPartition 0 sortedTables)])
                 (child_partitions blocksPerPartition 0 sortedTables)))"

definition classifyTable :: "pg_tx \<Rightarrow> string \<Rightarrow> (pg_part_error, tableClassification) res" where
  "classifyTable tx table = (case classify_query tx table of
     Inl e \<Rightarrow> Inl (QueryFailed ''failed to classify table'' e)
   | Inr None \<Rightarrow> Inl (TableNotFound table)
   | Inr (Some c) \<Rightarrow> Inr c)"

text \<open>
  The tables below a partitioned table. The recursion follows the catalog and is bounded by fuel,
  \<open>None\<close> when it does not suffice.
\<close>

fun fold_opt :: "('a \<Rightarrow> 's \<Rightarrow> ('e, 's) res option) \<Rightarrow> 'a list \<Rightarrow> 's \<Rightarrow> ('e, 's) res option" where
  "fold_opt f [] s = Some (Inr s)"
| "fold_opt f (x # xs) s = (case f x s of
     None \<Rightarrow> None
   | Some (Inl e) \<Rightarrow> Some (Inl e)
   | Some (Inr s') \<Rightarrow> fold_opt f xs s')"

definition maps_Copy :: "('k, 'v) gomap \<Rightarrow> ('k, 'v) gomap \<Rightarrow> ('k, 'v) gomap" where
  "maps_Copy dst src = fold (\<lambda>(k, v). AList.update k v) src dst"

fun getPartitionedTables ::
    "pg_tx \<Rightarrow> nat \<Rightarrow> 32 word \<Rightarrow> (pg_part_error, (string, tableBlockStats) gomap) res option" where
  "getPartitionedTables tx 0 parentOID = None"
| "getPartitionedTables tx (Suc fuel) parentOID =
     (case all_rows ''failed to query child tables'' (partitions_query tx parentOID) of
        Inl e \<Rightarrow> Some (Inl e)
      | Inr infos \<Rightarrow>
          fold_opt (\<lambda>info m.
            if tiKind info = ''p'' then
              map_option (\<lambda>r. bind_res (nested_err (''failed to get partitions of '' @ tiName info) r)
                (\<lambda>leaves. Inr (maps_Copy m leaves))) (getPartitionedTables tx fuel (tiOid info))
            else if tiBlocks info > 0 then
              Some (Inr (AList.update (tiName info) \<lparr>blockDensity = tiDensity info, blockCount = tiBlocks info\<rparr> m))
            else Some (Inr m)) infos [])"

text \<open>
  The tables of an inheritance hierarchy, the parent included; the set of visited tables is
  shared by all calls.
\<close>

fun getInheritedTables ::
    "pg_tx \<Rightarrow> nat \<Rightarrow> 32 word \<Rightarrow> string \<Rightarrow> 32 word set
     \<Rightarrow> (pg_part_error, (string, tableBlockStats) gomap \<times> 32 word set) res option" where
  "getInheritedTables tx 0 parentOID parentName visited = None"
| "getInheritedTables tx (Suc fuel) parentOID parentName visited =
     (case relation_size_query tx parentOID of
        Inl e \<Rightarrow> Some (Inl (QueryFailed ''failed to get block count'' e))
      | Inr (numBlocks, density) \<Rightarrow>
          let own = (if numBlocks > 0 then [(parentName, \<lparr>blockDensity = density, blockCount = numBlocks\<rparr>)] else []) in
          case all_rows ''failed to query child tables'' (children_query tx parentOID) of
            Inl e \<Rightarrow> Some (Inl e)
          | Inr children \<Rightarrow>
              fold_opt (\<lambda>child (m, visited).
                let m = (if tiBlocks child > 0
                         then AList.update (tiName child) \<lparr>blockDensity = tiDensity child, blockCount = tiBlocks child\<rparr> m
                         else m) in
                if tiHasSubclass child \<and> tiOid child \<notin> visited then
                  map_option (\<lambda>r. bind_res (nested_err (''failed to get inherited tables of '' @ tiName child) r)
                    (\<lambda>(childTables, visited). Inr (maps_Copy m childTables, visited)))
                    (getInheritedTables tx fuel (tiOid child) (tiName child) visited)
                else Some (Inr (m, visited))) children (own, insert parentOID visited))"

definition CTIDBlockPartitioningFunc ::
    "(nat \<Rightarrow> string) \<Rightarrow> nat \<Rightarrow> PartitionParams \<Rightarrow> (pg_part_error, QRepPartition list) res option" where
  "CTIDBlockPartitioningFunc uuid fuel pp =
     (if sint (numPartitions pp) \<le> 0 then Some (Inl NonPositivePartitions)
      else case classifyTable (ppTx pp) (watermarkTable pp) of
        Inl e \<Rightarrow> Some (Inl e)
      | Inr tc \<Rightarrow>
          if relkind tc = ''p'' then
            map_option (\<lambda>r. bind_res (nested_err ''failed to get child partitioned tables'' r)
                (ctidPartitionsForChildTables uuid pp)) (getPartitionedTables (ppTx pp) fuel (tcOid tc))
          else if relhassubclass tc then
            map_option (\<lambda>r. bind_res (nested_err ''failed to get child inherited tables'' r)
                (\<lambda>(stats, _). ctidPartitionsForChildTables uuid pp stats))
              (getInheritedTables (ppTx pp) fuel (tcOid tc) (qualifiedName tc) {})
          else Some (ctidPartitionsForTable uuid pp))"

section \<open>The number of partitions\<close>

definition estimatedNumRowsForTable :: "PartitionParams \<Rightarrow> (pg_part_error, 64 word) res" where
  "estimatedNumRowsForTable pp = (case estimate_query (ppTx pp) (watermarkTable pp) of
     Inl e \<Rightarrow> Inl (QueryFailed ''failed to query for estimated row count'' e)
   | Inr None \<Rightarrow> Inr 0
   | Inr (Some v) \<Rightarrow> Inr v)"

text \<open>
  The sum of the estimates of the child tables, 0 if it overflows. Comparing the number of invalid counts with
  \<^verbatim>\<open>0.2*float64(n)\<close> is exact: the product is rounded to \<open>n / 5\<close> for a multiple of 5 and does not
  reach the next integer otherwise, for any number of tables below \<open>2 ^ 50\<close>.
\<close>

fun rollup_loop :: "64 word list \<Rightarrow> nat \<Rightarrow> 64 word \<Rightarrow> (nat \<times> 64 word) option" where
  "rollup_loop [] invalid running = Some (invalid, running)"
| "rollup_loop (est # ests) invalid running =
     (let invalid' = (if sint est \<le> 0 then invalid + 1 else invalid);
          running' = running + (if 0 \<le> sint est then est else 0) in
      if sint running' < sint running then None else rollup_loop ests invalid' running')"

definition rollupSubclassCounts :: "(64 word \<Rightarrow> int \<Rightarrow> 64 word) \<Rightarrow> (string, tableBlockStats) gomap \<Rightarrow> 64 word" where
  "rollupSubclassCounts product stats =
     (case rollup_loop (map (\<lambda>s. product (blockDensity (snd s)) (blockCount (snd s))) stats) 0 0 of
        None \<Rightarrow> 0
      | Some (invalid, running) \<Rightarrow> if 5 * invalid \<ge> length stats then 0 else running)"

definition estimated_rows :: "nat \<Rightarrow> PartitionParams \<Rightarrow> (pg_part_error, 64 word) res option" where
  "estimated_rows fuel pp =
     (if lastRangeEnd pp \<noteq> NilValue then Some (Inr 0)
      else case classifyTable (ppTx pp) (watermarkTable pp) of
        Inl e \<Rightarrow> Some (Inl e)
      | Inr tc \<Rightarrow>
          if relkind tc = ''p'' then
            map_option (\<lambda>r. bind_res (nested_err ''failed to get child partitioned tables'' r)
                (\<lambda>stats. Inr (rollupSubclassCounts (float_rows (ppTx pp)) stats)))
              (getPartitionedTables (ppTx pp) fuel (tcOid tc))
          else if relhassubclass tc then
            map_option (\<lambda>r. bind_res (nested_err ''failed to get child inherited tables'' r)
                (\<lambda>(stats, _). Inr (rollupSubclassCounts (float_rows (ppTx pp)) stats)))
              (getInheritedTables (ppTx pp) fuel (tcOid tc) (qualifiedName tc) {})
          else Some (estimatedNumRowsForTable pp))"

definition ComputeNumPartitions :: "nat \<Rightarrow> PartitionParams \<Rightarrow> 64 word \<Rightarrow> (pg_part_error, 64 word) res option" where
  "ComputeNumPartitions fuel pp numRowsPerPartition =
     map_option (\<lambda>r. bind_res r (\<lambda>estimated.
       bind_res (if sint estimated \<le> 0 then
           (case count_query (ppTx pp) (watermarkTable pp) (watermarkColumn pp) (lastRangeEnd pp) of
              Inl e \<Rightarrow> Inl (QueryFailed ''failed to query for precise row count'' e)
            | Inr n \<Rightarrow> Inr n)
         else Inr estimated) (\<lambda>totalRows.
       if sint totalRows \<le> 0 then Inr 0
       else case AdjustNumPartitions totalRows numRowsPerPartition of
           Inl p \<Rightarrow> Inl (RuntimePanic p)
         | Inr a \<Rightarrow> Inr (AdjustedNumPartitions a)))) (estimated_rows fuel pp)"

section \<open>The partitions of a table\<close>

record QRepConfig =
  NumRowsPerPartition :: "32 word"
  NumPartitionsOverride :: "32 word"
  WatermarkTable :: string
  WatermarkColumn :: string
  AddNullPartitionFlag :: bool

definition last_range_end :: "QRepPartition option \<Rightarrow> (pg_part_error, any_value) res" where
  "last_range_end lastPart = (case lastPart of
     None \<Rightarrow> Inr NilValue
   | Some l \<Rightarrow> (case Range l of
       None \<Rightarrow> Inr NilValue
     | Some (IntRange _ e) \<Rightarrow> Inr (Int64V e)
     | Some (UintRange _ e) \<Rightarrow> Inr (Uint64V e)
     | Some (TimestampRange _ e) \<Rightarrow> Inr (TimeV e)
     | Some (TidRange _ e) \<Rightarrow>
         Inr (TIDV \<lparr>pgBlockNumber = BlockNumber e, pgOffsetNumber = ucast (OffsetNumber e), pgValid = True\<rparr>)
     | Some _ \<Rightarrow> Inl UnknownRangeType))"

text \<open>\<open>ctidOverride\<close> is the setting for block partitioning, false if it cannot be read.\<close>

definition getPartitions ::
    "(nat \<Rightarrow> string) \<Rightarrow> nat \<Rightarrow> bool \<Rightarrow> pg_tx \<Rightarrow> QRepConfig \<Rightarrow> QRepPartition option
     \<Rightarrow> (pg_part_error, QRepPartition list) res option" where
  "getPartitions uuid fuel ctidOverride tx config lastPart =
     (case ParseTableIdentifier (WatermarkTable config) of
        Inl _ \<Rightarrow> Some (Inl BadWatermarkTable)
      | Inr schemaTable \<Rightarrow>
      (case last_range_end lastPart of
        Inl e \<Rightarrow> Some (Inl e)
      | Inr lastEnd \<Rightarrow>
         let pp = \<lparr>ppTx = tx, lastRangeEnd = lastEnd, watermarkTable = QualifiedTable_String schemaTable,
               watermarkColumn = QuoteIdentifier (WatermarkColumn config),
               numPartitions = ucast (NumPartitionsOverride config), addNullPartition = AddNullPartitionFlag config\<rparr>;
             hasPartitionOverride = (NumPartitionsOverride config > 0);
             partition_with = (\<lambda>pp.
               if WatermarkColumn config = ''ctid'' \<and> (ctidOverride \<or> hasPartitionOverride)
               then CTIDBlockPartitioningFunc uuid fuel pp
               else if hasPartitionOverride then Some (MinMaxRangePartitioningFunc uuid pp)
               else Some (NTileBucketPartitioningFunc uuid pp))
         in if hasPartitionOverride then partition_with pp
            else case ComputeNumPartitions fuel pp (ucast (NumRowsPerPartition config)) of
              None \<Rightarrow> None
            | Some (Inl e) \<Rightarrow> Some (Inl e)
            | Some (Inr n) \<Rightarrow> if n = 0 then Some (Inr []) else partition_with (pp\<lparr>numPartitions := n\<rparr>)))"

section \<open>Every block of every child table once\<close>

text \<open>The blocks that ranges of child tables hold, and those that a run still has to hand out.\<close>

definition range_blocks :: "ChildTableRange list \<Rightarrow> (string \<times> int) list" where
  "range_blocks rs = concat (map (\<lambda>r. map (Pair (ctTable r)) [uint (ctStart r)..uint (ctEnd r)]) rs)"

definition table_blocks :: "(string \<times> int) list \<Rightarrow> (string \<times> int) list" where
  "table_blocks ts = concat (map (\<lambda>t. map (Pair (fst t)) [0..snd t - 1]) ts)"

fun blocks_left :: "int \<Rightarrow> (string \<times> int) list \<Rightarrow> (string \<times> int) list" where
  "blocks_left b [] = []"
| "blocks_left b ((name, blocks) # ts) = map (Pair name) [b..blocks - 1] @ table_blocks ts"

fun offset_ok :: "int \<Rightarrow> (string \<times> int) list \<Rightarrow> bool" where
  "offset_ok b [] = True"
| "offset_ok b (t # ts) \<longleftrightarrow> 0 \<le> b \<and> b < snd t \<and> (\<forall>t \<in> set (t # ts). 0 < snd t \<and> snd t \<le> 2 ^ 32)"

lemma range_blocks_simps [simp]:
  "range_blocks [] = []"
  "range_blocks (r # rs) = map (Pair (ctTable r)) [uint (ctStart r)..uint (ctEnd r)] @ range_blocks rs"
  by (simp_all add: range_blocks_def)

lemma blocks_left_zero: "blocks_left 0 ts = table_blocks ts"
  by (cases ts) (auto simp: table_blocks_def)

lemma offset_ok_zero: "\<forall>t \<in> set ts. 0 < snd t \<and> snd t \<le> 2 ^ 32 \<Longrightarrow> offset_ok 0 ts"
  by (cases ts) auto

lemma offset_ok_next: "offset_ok b (t # ts) \<Longrightarrow> offset_ok 0 ts"
  by (cases ts) auto

text \<open>A range that ends with the last of \<open>2 ^ 32\<close> blocks wraps and is still right.\<close>

lemma child_range_ends:
  assumes "0 \<le> b" and "b < e" and "e \<le> 2 ^ 32"
  shows "uint (word_of_int b :: 32 word) = b" and "uint (word_of_int e - 1 :: 32 word) = e - 1"
proof -
  have "word_of_int e - 1 = (word_of_int (e - 1) :: 32 word)" by simp
  then show "uint (word_of_int e - 1 :: 32 word) = e - 1"
    using assms by (simp only: uint_word_of_int) (simp add: mod_pos_pos_trivial)
  show "uint (word_of_int b :: 32 word) = b"
    using assms by (simp only: uint_word_of_int) (simp add: mod_pos_pos_trivial)
qed

lemma fill_partition_blocks:
  assumes "fill_partition r b ts = (rs, b', ts')" and "0 \<le> r" and "offset_ok b ts"
  shows "range_blocks rs @ blocks_left b' ts' = blocks_left b ts \<and> offset_ok b' ts' \<and>
     int (length (range_blocks rs)) \<le> r \<and> (ts' \<noteq> [] \<longrightarrow> int (length (range_blocks rs)) = r) \<and>
     (0 < r \<longrightarrow> ts \<noteq> [] \<longrightarrow> rs \<noteq> [])"
  using assms
proof (induction ts arbitrary: r b rs)
  case (Cons t ts)
  obtain name blocks where t: "t = (name, blocks)" by fastforce
  have ok: "0 \<le> b" "b < blocks" "blocks \<le> 2 ^ 32" using Cons.prems(3) by (auto simp: t)
  show ?case
  proof (cases "r = 0")
    case True
    then show ?thesis using Cons.prems by simp
  next
    case False
    then have r: "0 < r" using Cons.prems(2) by simp
    show ?thesis
    proof (cases "blocks - b \<le> r")
      case True
      let ?rng = "\<lparr>ctTable = name, ctStart = word_of_int b, ctEnd = word_of_int blocks - 1 :: 32 word\<rparr>"
      obtain rs1 where rs1: "fill_partition (r - (blocks - b)) 0 ts = (rs1, b', ts')" "rs = ?rng # rs1"
        using Cons.prems(1) True r unfolding t
        by (cases "fill_partition (r - (blocks - b)) 0 ts") (auto simp: fill_partition_table [OF r refl] Let_def)
      have "offset_ok 0 ts" by (rule offset_ok_next [OF Cons.prems(3)])
      from Cons.IH [OF rs1(1) _ this] True
      have IH: "range_blocks rs1 @ blocks_left b' ts' = blocks_left 0 ts" "offset_ok b' ts'"
        "int (length (range_blocks rs1)) \<le> r - (blocks - b)"
        "ts' \<noteq> [] \<longrightarrow> int (length (range_blocks rs1)) = r - (blocks - b)" by simp_all
      have ends: "[uint (ctStart ?rng)..uint (ctEnd ?rng)] = [b..blocks - 1]"
        using child_range_ends [OF ok] by simp
      show ?thesis using IH ok(2) ends unfolding rs1(2) t by (simp add: blocks_left_zero)
    next
      case False
      let ?rng = "\<lparr>ctTable = name, ctStart = word_of_int b, ctEnd = word_of_int (b + r) - 1 :: 32 word\<rparr>"
      have rs: "rs = [?rng]" "b' = b + r" "ts' = t # ts"
        using Cons.prems(1) False r unfolding t by (auto simp: fill_partition_table [OF r refl] Let_def min_def)
      have e: "0 \<le> b" "b < b + r" "b + r \<le> 2 ^ 32" using ok r False by simp_all
      have ends: "[uint (ctStart ?rng)..uint (ctEnd ?rng)] = [b..b + r - 1]"
        using child_range_ends [OF e] by simp
      have "[b..blocks - 1] = [b..b + r - 1] @ [b + r..blocks - 1]" using False r by (intro upto_split1) simp_all
      then show ?thesis using ends Cons.prems(3) r False unfolding rs t by simp
    qed
  qed
qed simp

lemma child_partitions_blocks:
  assumes "0 < n" and "offset_ok b ts"
  shows "concat (map range_blocks (child_partitions n b ts)) = blocks_left b ts \<and>
     (\<forall>rs \<in> set (child_partitions n b ts). int (length (range_blocks rs)) \<le> n) \<and>
     (ts \<noteq> [] \<longrightarrow> n * (int (length (child_partitions n b ts)) - 1) < int (length (blocks_left b ts)))"
  using assms
proof (induction n b ts rule: child_partitions.induct)
  case (1 n b ts)
  show ?case
  proof (cases "ts = []")
    case True
    then show ?thesis by (subst (1 2) child_partitions.simps) (simp add: child_partitions.simps)
  next
    case False
    obtain rs b' ts' where f: "fill_partition n b ts = (rs, b', ts')" by (metis surj_pair)
    have ne: "\<not> (ts = [] \<or> n \<le> 0)" using False 1(2) by simp
    from fill_partition_blocks [OF f _ 1(3)] 1(2) False have fill:
      "range_blocks rs @ blocks_left b' ts' = blocks_left b ts" "offset_ok b' ts'"
      "int (length (range_blocks rs)) \<le> n" "ts' \<noteq> [] \<longrightarrow> int (length (range_blocks rs)) = n" "rs \<noteq> []" by simp_all
    have cp: "child_partitions n b ts = rs # child_partitions n b' ts'"
      using ne f fill(5) by (subst child_partitions.simps) simp
    note IH = 1(1) [OF ne f [symmetric] refl refl 1(2) fill(2)]
    have len: "int (length (blocks_left b ts)) = int (length (range_blocks rs)) + int (length (blocks_left b' ts'))"
      using arg_cong [OF fill(1), of length] by simp
    show ?thesis
    proof (cases "ts' = []")
      case True
      then have "child_partitions n b' ts' = []" by (subst child_partitions.simps) simp
      moreover have "0 < length (blocks_left b ts)" using False 1(3) by (cases ts) auto
      ultimately show ?thesis using fill True unfolding cp by simp
    next
      case ne': False
      then have "n * int (length (child_partitions n b' ts')) < int (length (blocks_left b ts))"
        using IH fill(4) len by (simp add: right_diff_distrib)
      then show ?thesis using IH fill(1,3) unfolding cp by simp
    qed
  qed
qed

lemma distinct_table_blocks: "distinct (map fst ts) \<Longrightarrow> distinct (table_blocks ts)"
proof (induction ts)
  case (Cons t ts)
  have "set (table_blocks ts) \<subseteq> {x. fst x \<in> fst ` set ts}" by (force simp: table_blocks_def)
  with Cons show ?case by (auto simp: table_blocks_def distinct_map inj_on_def)
qed (simp add: table_blocks_def)

lemma length_table_blocks:
  "\<forall>t \<in> set ts. 0 \<le> snd t \<Longrightarrow> int (length (table_blocks ts)) = sum_list (map snd ts)"
  by (induction ts) (simp_all add: table_blocks_def)

lemma set_table_blocks: "set (table_blocks ts) = {(n, b). \<exists>k. (n, k) \<in> set ts \<and> 0 \<le> b \<and> b < k}"
  by (auto simp: table_blocks_def image_iff)

section \<open>Blocks of one table\<close>

text \<open>The first block of a partition of the table.\<close>

definition block_start :: "int \<Rightarrow> int \<Rightarrow> nat \<Rightarrow> int" where
  "block_start tot n i = int i * tot div n"

definition ctid_inputs :: "int \<Rightarrow> int \<Rightarrow> int \<Rightarrow> nat \<Rightarrow> (tid_value \<times> tid_value) list" where
  "ctid_inputs tot n from k = concat (map (\<lambda>i.
     let s = block_start tot n i; e = block_start tot n (Suc i) in
     if e \<le> s \<or> e * 65536 - 1 < from then []
     else [(if s * 65536 < from then (word_of_int (from div 65536), word_of_int (from mod 65536)) else (word_of_int s, 0),
            (word_of_int (e - 1), 0xFFFF))]) [0..<k])"

lemma block_start_mono: "0 \<le> tot \<Longrightarrow> 0 < n \<Longrightarrow> i \<le> j \<Longrightarrow> block_start tot n i \<le> block_start tot n j"
  unfolding block_start_def by (intro zdiv_mono1 mult_right_mono) simp_all

lemma block_start_bounds:
  assumes "0 \<le> tot" and "0 < n" and "int i \<le> n"
  shows "0 \<le> block_start tot n i" and "block_start tot n i \<le> tot"
proof -
  show "0 \<le> block_start tot n i" using assms by (simp add: block_start_def pos_imp_zdiv_nonneg_iff)
  have "int i * tot \<le> n * tot" using assms by (intro mult_right_mono) simp_all
  then have "int i * tot div n \<le> n * tot div n" using assms(2) by (rule zdiv_mono1)
  then show "block_start tot n i \<le> tot" using assms(2) by (simp add: block_start_def)
qed

lemma tid_val_words:
  assumes "0 \<le> b" and "b < 2 ^ 32" and "0 \<le> o'" and "o' < 65536"
  shows "tid_val (word_of_int b, word_of_int o') = b * 65536 + o'"
  using assms by (simp add: tid_val_def uint_word_of_int mod_pos_pos_trivial)

lemma tid_val_from:
  assumes "0 \<le> v" and "v < 2 ^ 48"
  shows "tid_val (word_of_int (v div 65536), word_of_int (v mod 65536)) = v"
  using assms tid_val_words [of "v div 65536" "v mod 65536"] by (simp add: pos_imp_zdiv_nonneg_iff)

lemma ctid_inputs_spec:
  assumes "0 \<le> tot" and "tot < 2 ^ 32" and "0 < n" and "0 \<le> from" and "from < 2 ^ 48" and "int k \<le> n"
  shows "covered tid_val (ctid_inputs tot n from k) = {from..<block_start tot n k * 65536} \<and>
     sorted (map (\<lambda>r. tid_val (fst r)) (ctid_inputs tot n from k)) \<and>
     (\<forall>r \<in> set (ctid_inputs tot n from k). tid_val (fst r) \<le> tid_val (snd r) \<and>
        tid_val (fst r) < block_start tot n k * 65536)"
  using assms(6)
proof (induction k)
  case 0
  then show ?case using assms by (simp add: ctid_inputs_def block_start_def)
next
  case (Suc k)
  let ?s = "block_start tot n k" and ?e = "block_start tot n (Suc k)"
  have IH: "covered tid_val (ctid_inputs tot n from k) = {from..<?s * 65536}"
    "sorted (map (\<lambda>r. tid_val (fst r)) (ctid_inputs tot n from k))"
    "\<forall>r \<in> set (ctid_inputs tot n from k). tid_val (fst r) \<le> tid_val (snd r) \<and> tid_val (fst r) < ?s * 65536"
    using Suc by simp_all
  have se: "?s \<le> ?e" using block_start_mono [OF assms(1,3)] by simp
  have s0: "0 \<le> ?s" and et: "?e \<le> tot"
    using block_start_bounds [OF assms(1,3)] Suc.prems by simp_all
  have step: "ctid_inputs tot n from (Suc k) = ctid_inputs tot n from k @
      (if ?e \<le> ?s \<or> ?e * 65536 - 1 < from then []
       else [(if ?s * 65536 < from then (word_of_int (from div 65536), word_of_int (from mod 65536)) else (word_of_int ?s, 0),
              (word_of_int (?e - 1), 0xFFFF))])"
    by (simp add: ctid_inputs_def Let_def)
  show ?case
  proof (cases "?e \<le> ?s \<or> ?e * 65536 - 1 < from")
    case True
    then have "{from..<?s * 65536} = {from..<?e * 65536}" using se by auto
    with IH step True se show ?thesis by fastforce
  next
    case False
    define y :: tid_value where "y = (word_of_int (?e - 1), 0xFFFF)"
    define a :: tid_value where "a = (if ?s * 65536 < from then (word_of_int (from div 65536), word_of_int (from mod 65536))
      else (word_of_int ?s, 0))"
    have y: "tid_val y = ?e * 65536 - 1"
      using tid_val_words [of "?e - 1" 65535] s0 et assms(2) False by (simp add: y_def)
    have a: "tid_val a = max from (?s * 65536)"
      using tid_val_from [OF assms(4,5)] tid_val_words [of ?s 0] s0 se et assms(2) by (simp add: a_def)
    have new: "ctid_inputs tot n from (Suc k) = ctid_inputs tot n from k @ [(a, y)]"
      using False unfolding step a_def y_def by simp
    have cov: "{from..<?s * 65536} \<union> {max from (?s * 65536)..?e * 65536 - 1} = {from..<?e * 65536}"
      using False by auto
    have bound: "\<forall>r \<in> set (ctid_inputs tot n from k). tid_val (fst r) < ?e * 65536 \<and> tid_val (fst r) \<le> max from (?s * 65536)"
      using IH(3) se by fastforce
    show ?thesis
      using IH bound False unfolding new by (auto simp: sorted_append y a cov)
  qed
qed

lemma block_start_word:
  assumes "0 \<le> tot" and "tot < 2 ^ 32" and "0 < sint n" and "sint n \<le> 2 ^ 30" and "int i \<le> sint n"
  shows "uint (ucast (quot (of_nat i * word_of_int tot) n) :: 32 word) = block_start tot (sint n) i"
proof -
  have iw: "sint (of_nat i :: 64 word) = int i"
    using sint_of_int64 [of "int i"] assms(4,5) by simp
  have tw: "sint (word_of_int tot :: 64 word) = tot" using sint_of_int64 [of tot] assms(1,2) by simp
  have "int i * tot \<le> 2 ^ 30 * 2 ^ 32" using assms(1,2,4,5) by (intro mult_mono) simp_all
  moreover have p0: "0 \<le> int i * tot" using assms(1) by simp
  ultimately have prod: "sint (of_nat i * word_of_int tot :: 64 word) = int i * tot"
    using sint_arith64(3) [of "of_nat i" "word_of_int tot"] iw tw by simp
  have q: "sint (quot (of_nat i * word_of_int tot) n) = block_start tot (sint n) i"
    using sint_quot [of "of_nat i * word_of_int tot" n] p0 prod assms(3) by (simp add: block_start_def)
  note b = block_start_bounds [OF assms(1,3,5)]
  have "uint (quot (of_nat i * word_of_int tot) n) = block_start tot (sint n) i"
    using uint_diff_signed [of 0 "quot (of_nat i * word_of_int tot) n"] q b by simp
  then show ?thesis using b assms(2) by (simp add: unsigned_ucast_eq unsigned_take_bit_eq take_bit_int_eq_self)
qed

lemma tidRange_blocks:
  assumes "0 \<le> tot" and "tot < 2 ^ 32" and "0 < sint n" and "sint n \<le> 2 ^ 30" and "int i < sint n"
  shows "tidRangeForPartition (word_of_int tot) n (of_nat i) =
    (let s = block_start tot (sint n) i; e = block_start tot (sint n) (Suc i) in
     if e \<le> s then None
     else Some (\<lparr>pgBlockNumber = word_of_int s, pgOffsetNumber = 0, pgValid = True\<rparr>,
                \<lparr>pgBlockNumber = word_of_int (e - 1), pgOffsetNumber = 0xFFFF, pgValid = True\<rparr>))"
proof -
  let ?s = "ucast (quot (of_nat i * word_of_int tot) n) :: 32 word"
  let ?e = "ucast (quot (of_nat (Suc i) * word_of_int tot) n) :: 32 word"
  have u: "uint ?s = block_start tot (sint n) i" "uint ?e = block_start tot (sint n) (Suc i)"
    using block_start_word [OF assms(1-4), of i] block_start_word [OF assms(1-4), of "Suc i"] assms(5) by simp_all
  have "?s = word_of_int (block_start tot (sint n) i)" "?e = word_of_int (block_start tot (sint n) (Suc i))"
    unfolding u [symmetric] word_of_int_uint by (rule refl)+
  moreover have "?e \<le> ?s \<longleftrightarrow> block_start tot (sint n) (Suc i) \<le> block_start tot (sint n) i"
    unfolding word_le_def u by (rule refl)
  ultimately show ?thesis
    by (simp add: tidRangeForPartition_def Let_def add.commute)
qed

definition tid_pair :: "pgTID \<Rightarrow> tid_value" where
  "tid_pair t = (pgBlockNumber t, pgOffsetNumber t)"

lemma tidCmp_val: "tidCmp a b = cmp_Compare (tid_val (tid_pair a)) (tid_val (tid_pair b))"
  using tid_compare [of "tid_pair a" "tid_pair b"] unfolding tidCmp_def tid_pair_def Let_def fst_conv snd_conv .

lemma AddPartition_tid:
  "AddPartition u (TIDV s) (TIDV e) = AddPartition u (tid_any (tid_pair s)) (tid_any (tid_pair e))"
  by (simp add: fun_eq_iff AddPartition_def getPartitionForStartAndEnd_def createTIDPartition_def proto_TID_def
      tid_any_def tid_pair_def)

lemma helper_err_bind: "helper_err s (bind_res m f) = bind_res (helper_err s m) (\<lambda>x. helper_err s (f x))"
  by (cases m) (auto simp: helper_err_def split: part_error.split)

lemma helper_err_Inr [simp]: "helper_err s (Inr x) = Inr x"
  by (simp add: helper_err_def)

lemma fold_res_one: "fold_res f [x] s = f x s"
  by (cases "f x s") simp_all

lemma ctid_inputs_Suc:
  "ctid_inputs tot n from (Suc k) = ctid_inputs tot n from k @
     (let s = block_start tot n k; e = block_start tot n (Suc k) in
     if e \<le> s \<or> e * 65536 - 1 < from then []
     else [(if s * 65536 < from then (word_of_int (from div 65536), word_of_int (from mod 65536)) else (word_of_int s, 0),
            (word_of_int (e - 1), 0xFFFF))])"
  by (simp add: ctid_inputs_def)

lemma tid_of_val:
  "(word_of_int (tid_val t div 65536), word_of_int (tid_val t mod 65536)) = t"
  using uint16_less [of "snd t"] by (cases t) (simp add: tid_val_def)

text \<open>A position to resume from; without one, the start of the table.\<close>

definition resume_val :: "pgTID \<Rightarrow> int" where
  "resume_val t = (if pgValid t then tid_val (tid_pair t) else 0)"

lemma ctid_partition_step:
  assumes "0 \<le> tot" and "tot < 2 ^ 32" and "0 < sint n" and "sint n \<le> 2 ^ 30" and "int k < sint n"
  shows "ctid_partition u (word_of_int tot) n res k p =
     helper_err ''failed to add TID partition'' (fold_res (\<lambda>(s, e) p. AddPartition u (tid_any s) (tid_any e) p)
       (drop (length (ctid_inputs tot (sint n) (resume_val res) k)) (ctid_inputs tot (sint n) (resume_val res) (Suc k))) p)"
proof -
  let ?s = "block_start tot (sint n) k" and ?e = "block_start tot (sint n) (Suc k)"
  note range = tidRange_blocks [OF assms]
  have b: "0 \<le> ?s" "?s \<le> tot" "0 \<le> ?e" "?e \<le> tot"
    using block_start_bounds [OF assms(1,3)] assms(5) by simp_all
  show ?thesis
  proof (cases "?e \<le> ?s")
    case True
    then show ?thesis by (simp add: ctid_partition_def range ctid_inputs_Suc Let_def)
  next
    case False
    define y where "y = \<lparr>pgBlockNumber = word_of_int (?e - 1), pgOffsetNumber = 0xFFFF, pgValid = True\<rparr>"
    define x where "x = \<lparr>pgBlockNumber = word_of_int ?s, pgOffsetNumber = 0, pgValid = True\<rparr>"
    have y: "tid_val (tid_pair y) = ?e * 65536 - 1" and x: "tid_val (tid_pair x) = ?s * 65536"
      using tid_val_words [of "?e - 1" 65535] tid_val_words [of ?s 0] b False assms(2)
      by (simp_all add: y_def x_def tid_pair_def)
    have r: "tidRangeForPartition (word_of_int tot) n (of_nat k) = Some (x, y)"
      using False by (simp add: range x_def y_def)
    have pair: "tid_pair (t\<lparr>pgValid := True\<rparr>) = tid_pair t" for t :: pgTID by (simp add: tid_pair_def)
    have new: "drop (length (ctid_inputs tot (sint n) (resume_val res) k)) (ctid_inputs tot (sint n) (resume_val res) (Suc k)) =
        (if ?e * 65536 - 1 < resume_val res then []
         else [(if ?s * 65536 < resume_val res then tid_pair res else tid_pair x, tid_pair y)])"
    proof -
      have "(word_of_int (resume_val res div 65536), word_of_int (resume_val res mod 65536)) = tid_pair res"
        if "?s * 65536 < resume_val res"
        using that b(1) tid_of_val [of "tid_pair res"] by (auto simp: resume_val_def split: if_split_asm)
      then show ?thesis using False by (simp add: ctid_inputs_Suc Let_def x_def y_def tid_pair_def [of x] tid_pair_def [of y] tid_pair_def)
    qed
    show ?thesis
      unfolding new using False b
      by (cases "pgValid res")
         (auto simp: ctid_partition_def r tidCmp_val x y pair AddPartition_tid resume_val_def fold_res_one Let_def
           simp del: fold_res.simps(2))
  qed
qed

lemma ctid_partition_fold:
  assumes "0 \<le> tot" and "tot < 2 ^ 32" and "0 < sint n" and "sint n \<le> 2 ^ 30" and "int k \<le> sint n"
  shows "fold_res (ctid_partition u (word_of_int tot) n res) [0..<k] p =
     helper_err ''failed to add TID partition'' (fold_res (\<lambda>(s, e) p. AddPartition u (tid_any s) (tid_any e) p)
       (ctid_inputs tot (sint n) (resume_val res) k) p)"
  using assms(5)
proof (induction k)
  case 0
  then show ?case by (simp add: ctid_inputs_def)
next
  case (Suc k)
  let ?in = "ctid_inputs tot (sint n) (resume_val res)"
  have split: "?in (Suc k) = ?in k @ drop (length (?in k)) (?in (Suc k))"
    by (simp add: ctid_inputs_Suc)
  have k: "int k < sint n" using Suc.prems by simp
  have step: "ctid_partition u (word_of_int tot) n res k = (\<lambda>p.
     helper_err ''failed to add TID partition'' (fold_res (\<lambda>(s, e) p. AddPartition u (tid_any s) (tid_any e) p)
       (drop (length (?in k)) (?in (Suc k))) p))"
    by (rule ext) (rule ctid_partition_step [OF assms(1-4) k])
  have "fold_res (ctid_partition u (word_of_int tot) n res) [0..<Suc k] p =
    bind_res (fold_res (ctid_partition u (word_of_int tot) n res) [0..<k] p) (ctid_partition u (word_of_int tot) n res k)"
    by (simp add: fold_res_append fold_res_one [abs_def] del: fold_res.simps(2))
  also have "\<dots> = helper_err ''failed to add TID partition'' (fold_res (\<lambda>(s, e) p. AddPartition u (tid_any s) (tid_any e) p)
       (?in k @ drop (length (?in k)) (?in (Suc k))) p)"
    unfolding fold_res_append helper_err_bind step using Suc by simp
  finally show ?case unfolding split [symmetric] .
qed

lemma resume_val_range: "0 \<le> resume_val t" "resume_val t < 2 ^ 48"
  using uint16_less [of "pgOffsetNumber t"] uint32_less [of "pgBlockNumber t"]
  by (simp_all add: resume_val_def tid_val_def tid_pair_def)

lemma tidInc_val:
  assumes "uint (pgBlockNumber t) < 2 ^ 32 - 1"
  shows "resume_val (tidInc t) = tid_val (tid_pair t) + 1"
proof -
  have "tid_pair (tidInc t) = tid_next (tid_pair t)" by (simp add: tidInc_def tid_pair_def tid_next_def)
  moreover have "tid_val (tid_pair t) < tid_val (0xFFFFFFFF, 0)"
    using assms uint16_less [of "pgOffsetNumber t"] unfolding tid_val_def tid_pair_def by simp
  ultimately show ?thesis using tid_next_val by (simp add: resume_val_def tidInc_def)
qed

section \<open>Properties\<close>

text \<open>
  C8: the blocks of a table without children. The partitions are in order, do not overlap, and hold
  exactly the tuple identifiers of all blocks, or of those after the last one if a partitioning is continued.
\<close>

theorem ctid_table_partitioned:
  assumes "block_count_query (ppTx pp) (watermarkTable pp) = Inr tot" and "0 < tot" and "tot < 2 ^ 32"
    and "0 < sint (numPartitions pp)" and "sint (numPartitions pp) \<le> 2 ^ 30"
    and "lastRangeEnd pp = NilValue \<and> from = 0 \<or>
      (\<exists>t. lastRangeEnd pp = TIDV t \<and> uint (pgBlockNumber t) < 2 ^ 32 - 1 \<and> from = tid_val (tid_pair t) + 1)"
  shows "\<exists>ps rs. ctidPartitionsForTable uuid pp = Inr ps \<and>
     map Range ps = map (\<lambda>r. Some (TidRange (tid_proto (fst r)) (tid_proto (snd r)))) rs \<and>
     separated tid_val rs \<and> covered tid_val rs = {from..<tot * 65536}"
proof -
  let ?n = "numPartitions pp"
  define res where "res = (case lastRangeEnd pp of TIDV t \<Rightarrow> tidInc t
      | _ \<Rightarrow> \<lparr>pgBlockNumber = 0, pgOffsetNumber = 0, pgValid = False\<rparr>)"
  have from_res: "from = resume_val res"
    using assms(6) tidInc_val by (auto simp: res_def resume_val_def [of "\<lparr>pgBlockNumber = 0, pgOffsetNumber = 0, pgValid = False\<rparr>"])
  let ?k = "nat (sint ?n)"
  have k: "int ?k = sint ?n" using assms(4) by simp
  have full: "block_start tot (sint ?n) ?k = tot" using k assms(4) by (simp add: block_start_def)
  have tot0: "0 \<le> tot" using assms(2) by simp
  have spec: "covered tid_val (ctid_inputs tot (sint ?n) from ?k) = {from..<tot * 65536}"
    "sorted (map (\<lambda>r. tid_val (fst r)) (ctid_inputs tot (sint ?n) from ?k))"
    "\<forall>r \<in> set (ctid_inputs tot (sint ?n) from ?k). tid_val (fst r) \<le> tid_val (snd r)"
    using ctid_inputs_spec [OF tot0 assms(3,4), of "from" ?k] resume_val_range [of res] k full
    unfolding from_res by simp_all
  from tidkind.partitions_exact [OF _ spec(2), of uuid 0] spec(3) obtain p rs where
    p: "fold_res (\<lambda>(s, e) p. AddPartition uuid (tid_any s) (tid_any e) p) (ctid_inputs tot (sint ?n) from ?k)
          (NewPartitionHelper 0) = Inr p"
    "range_helper uuid tid_any (\<lambda>a b. TidRange (tid_proto a) (tid_proto b)) p rs"
    "separated tid_val rs" "covered tid_val rs = {from..<tot * 65536}"
    unfolding spec(1) by blast
  have "fold_res (ctid_partition uuid (word_of_int tot) ?n res) [0..<?k] (NewPartitionHelper 0) = Inr p"
    using ctid_partition_fold [OF tot0 assms(3-5), of ?k uuid res] p(1) k from_res by simp
  then have "ctidPartitionsForTable uuid pp = Inr (GetPartitions p)"
    using assms(1,2) by (simp add: ctidPartitionsForTable_def res_def Let_def)
  then show ?thesis using range_helper_ranges(1) [OF p(2)] p(3,4) by (auto simp: GetPartitions_def)
qed

definition tx_sample :: pg_tx where
  "tx_sample = \<lparr>ntile_query = (\<lambda>n c t l. Inr ([Inr (Int32V 1, Int32V 4), Inr (Int32V 4, Int32V 4), Inr (Int32V 4, Int32V 9)], None)),
     minmax_query = (\<lambda>t c l. Inr (Int64V (- 5), Int64V 4)), block_count_query = (\<lambda>t. Inr 10),
     classify_query = (\<lambda>t. Inr None), partitions_query = (\<lambda>i. Inr ([], None)), relation_size_query = (\<lambda>i. Inr (0, 0)),
     children_query = (\<lambda>i. Inr ([], None)), estimate_query = (\<lambda>t. Inr None), count_query = (\<lambda>t c l. Inr 0),
     float_rows = (\<lambda>d n. 0)\<rparr>"

definition pp_sample :: PartitionParams where
  "pp_sample = \<lparr>ppTx = tx_sample, lastRangeEnd = NilValue, watermarkTable = ''t'', watermarkColumn = ''id'',
     numPartitions = 3, addNullPartition = True\<rparr>"

theorem ctid_table_partitioned_witness:
  "\<exists>ps rs. ctidPartitionsForTable (\<lambda>n. []) pp_sample = Inr ps \<and>
     map Range ps = map (\<lambda>r. Some (TidRange (tid_proto (fst r)) (tid_proto (snd r)))) rs \<and>
     covered tid_val rs = {0..<655360}"
  using ctid_table_partitioned [of pp_sample 10 0 "\<lambda>n. []"] by (auto simp: pp_sample_def tx_sample_def)

text \<open>
  C6: the blocks of child tables. The partitions are at most as many as asked for, each holds no more
  blocks than the rounded share, and every block of every table is in exactly one range
  of one partition.
\<close>

theorem child_tables_blocks_once:
  assumes "gomap_ok stats" and "stats \<noteq> []" and "\<forall>s \<in> set stats. 0 < blockCount (snd s) \<and> blockCount (snd s) \<le> 2 ^ 32"
    and "sum_list (map (\<lambda>s. blockCount (snd s)) stats) \<le> 2 ^ 60"
    and "0 < sint (numPartitions pp)" and "sint (numPartitions pp) \<le> 2 ^ 60"
  shows "\<exists>ps. ctidPartitionsForChildTables uuid pp stats = Inr ps \<and> int (length ps) \<le> sint (numPartitions pp) \<and>
     distinct (concat (map (\<lambda>p. range_blocks (ChildTableRanges p)) ps)) \<and>
     set (concat (map (\<lambda>p. range_blocks (ChildTableRanges p)) ps)) =
       {(t, b). \<exists>s. map_of stats t = Some s \<and> 0 \<le> b \<and> b < blockCount s}"
proof -
  let ?T = "sum_list (map (\<lambda>s. blockCount (snd s)) stats)" and ?n = "numPartitions pp"
  let ?ts = "map (\<lambda>s. (fst s, blockCount (snd s))) (sort_key fst stats)"
  have set_ts: "set ?ts = (\<lambda>s. (fst s, blockCount (snd s))) ` set stats" by simp
  have T0: "0 < ?T"
  proof -
    obtain s ss where "stats = s # ss" using assms(2) by (cases stats) auto
    moreover from this have "0 \<le> sum_list (map (\<lambda>s. blockCount (snd s)) ss)"
      using assms(3) by (intro sum_list_nonneg) auto
    ultimately show ?thesis using assms(3) by simp
  qed
  have Tw: "sint (word_of_int ?T :: 64 word) = ?T" using sint_of_int64 [of ?T] T0 assms(4) by simp
  then have Tne: "(word_of_int ?T :: 64 word) \<noteq> 0" using T0 by (metis less_irrefl sint_0)
  obtain d where d: "DivCeil (word_of_int ?T) ?n = Inr d" "sint ?n * (sint d - 1) < ?T" "?T \<le> sint ?n * sint d"
    using DivCeil_exact [of "word_of_int ?T" ?n] Tw T0 assms(4-6) by auto
  have d1: "1 \<le> sint d"
  proof (rule ccontr)
    assume "\<not> 1 \<le> sint d"
    then have "sint ?n * sint d \<le> 0" using assms(5) by (intro mult_nonneg_nonpos) simp_all
    with d(3) T0 show False by simp
  qed
  have ok: "offset_ok 0 ?ts" using assms(3) by (intro offset_ok_zero) (simp add: set_ts)
  have d0: "0 < sint d" using d1 by simp
  note cp = child_partitions_blocks [OF d0 ok]
  define rss where "rss = child_partitions (sint d) 0 ?ts"
  have cp': "concat (map range_blocks rss) = table_blocks ?ts" using cp unfolding rss_def blocks_left_zero by blast
  let ?ps = "map2 child_partition (map uuid [0..<length rss]) rss"
  have run: "ctidPartitionsForChildTables uuid pp stats = Inr ?ps"
    using d(1) d1 Tne by (simp add: ctidPartitionsForChildTables_def rss_def Let_def max_def)
  have ranges: "map ChildTableRanges ?ps = rss"
    by (simp add: child_partition_def case_prod_unfold comp_def)
  have "concat (map (\<lambda>p. range_blocks (ChildTableRanges p)) ?ps) = concat (map range_blocks (map ChildTableRanges ?ps))"
    by (simp add: comp_def)
  also have "\<dots> = table_blocks ?ts" unfolding ranges by (rule cp')
  finally have all: "concat (map (\<lambda>p. range_blocks (ChildTableRanges p)) ?ps) = table_blocks ?ts" .
  have names: "distinct (map fst ?ts)"
    using assms(1) by (simp add: comp_def distinct_map)
  have blocks: "set (table_blocks ?ts) = {(t, b). \<exists>s. map_of stats t = Some s \<and> 0 \<le> b \<and> b < blockCount s}"
    unfolding set_table_blocks set_ts using assms(1) by (auto simp: image_iff intro: map_of_is_SomeI) (metis fst_conv snd_conv map_of_SomeD)
  have "distinct stats" using assms(1) by (simp add: distinct_map)
  then have "sum_list (map (\<lambda>s. blockCount (snd s)) (sort_key fst stats)) = ?T"
    by (simp add: sum_list_distinct_conv_sum_set)
  then have len: "int (length (table_blocks ?ts)) = ?T"
    using assms(3) by (subst length_table_blocks) (auto simp: comp_def less_imp_le)
  have "length (sort_key fst stats) \<noteq> 0" using assms(2) by simp
  then have "sort_key fst stats \<noteq> []" by (metis list.size(3))
  then have "sint d * (int (length rss) - 1) < ?T"
    using cp unfolding rss_def blocks_left_zero len by simp
  also note d(3)
  finally have "sint d * (int (length rss) - 1) < sint d * sint ?n" by (simp only: mult.commute)
  then have "int (length rss) \<le> sint ?n" using d0 by (simp add: mult_less_cancel_left)
  then have "int (length ?ps) \<le> sint ?n" by simp
  with run distinct_table_blocks [OF names] blocks show ?thesis unfolding all [symmetric] by blast
qed

definition stats_sample :: "(string, tableBlockStats) gomap" where
  "stats_sample = [(''b'', \<lparr>blockDensity = 0, blockCount = 20\<rparr>), (''a'', \<lparr>blockDensity = 0, blockCount = 30\<rparr>),
     (''c'', \<lparr>blockDensity = 0, blockCount = 10\<rparr>)]"

theorem child_tables_blocks_once_witness:
  "\<exists>ps. ctidPartitionsForChildTables (\<lambda>n. []) pp_sample stats_sample = Inr ps \<and> int (length ps) \<le> 3 \<and>
     distinct (concat (map (\<lambda>p. range_blocks (ChildTableRanges p)) ps))"
  using child_tables_blocks_once [of stats_sample pp_sample "\<lambda>n. []"]
  by (auto simp: stats_sample_def pp_sample_def)

lemma ntile_loop_values:
  "fold_res (\<lambda>(s, e) p. AddPartition u s e p) rows p = Inr p' \<Longrightarrow> ntile_loop u (map Inr rows) p = Inr p'"
proof (induction rows arbitrary: p)
  case (Cons r rows)
  then show ?case by (cases r; cases "AddPartition u (fst r) (snd r) p") auto
qed simp

text \<open>
  How the rows of a query are read, by the type of the column. Narrow integers are widened; a tuple
  identifier is its block and offset.
\<close>

fun signed_row :: "any_value \<times> any_value \<Rightarrow> (64 word \<times> 64 word) option" where
  "signed_row (Int64V a, Int64V b) = Some (a, b)"
| "signed_row (Int32V a, Int32V b) = Some (scast a, scast b)"
| "signed_row (Int16V a, Int16V b) = Some (scast a, scast b)"
| "signed_row (Int8V a, Int8V b) = Some (scast a, scast b)"
| "signed_row _ = None"

fun unsigned_row :: "any_value \<times> any_value \<Rightarrow> (64 word \<times> 64 word) option" where
  "unsigned_row (Uint64V a, Uint64V b) = Some (a, b)"
| "unsigned_row (Uint32V a, Uint32V b) = Some (ucast a, ucast b)"
| "unsigned_row (Uint16V a, Uint16V b) = Some (ucast a, ucast b)"
| "unsigned_row (Uint8V a, Uint8V b) = Some (ucast a, ucast b)"
| "unsigned_row _ = None"

text \<open>A time is read only if it is a whole number of microseconds, as all times of PostgreSQL are.\<close>

fun time_row :: "any_value \<times> any_value \<Rightarrow> (int \<times> int) option" where
  "time_row (TimeV a, TimeV b) = (if 1000 dvd a \<and> 1000 dvd b then Some (a, b) else None)"
| "time_row _ = None"

fun tid_row :: "any_value \<times> any_value \<Rightarrow> (tid_value \<times> tid_value) option" where
  "tid_row (TIDV a, TIDV b) = Some ((pgBlockNumber a, pgOffsetNumber a), (pgBlockNumber b, pgOffsetNumber b))"
| "tid_row _ = None"

definition buckets_in_order :: "('v \<Rightarrow> int) \<Rightarrow> ('v \<times> 'v) list \<Rightarrow> bool" where
  "buckets_in_order val ws \<longleftrightarrow> sorted (map (\<lambda>r. val (fst r)) ws) \<and> (\<forall>r \<in> set ws. val (fst r) \<le> val (snd r))"

text \<open>The partitions hold exactly the values of the buckets and none twice; the one of null values follows if it is wanted.\<close>

definition buckets_held ::
    "('v \<Rightarrow> int) \<Rightarrow> ('v \<Rightarrow> 'v \<Rightarrow> PartitionRange) \<Rightarrow> bool \<Rightarrow> ('v \<times> 'v) list \<Rightarrow> QRepPartition list \<Rightarrow> bool" where
  "buckets_held val mk nulls ws ps \<longleftrightarrow> (\<exists>rs. map Range ps = map (\<lambda>r. Some (mk (fst r) (snd r))) rs @ (if nulls then [Some NullRange] else []) \<and>
     separated val rs \<and> covered val rs = covered val ws \<and> length rs \<le> length ws)"

context range_kind
begin

lemma AddPartition_read:
  assumes "\<And>u p. getPartitionForStartAndEnd u s e p = getPartitionForStartAndEnd u (toAny a) (toAny b) p"
  shows "AddPartition u s e p = AddPartition u (toAny a) (toAny b) p"
  unfolding AddPartition_def assms ..

lemma ntile_buckets:
  assumes "ntile_query (ppTx pp) (numPartitions pp) (watermarkColumn pp) (watermarkTable pp) (lastRangeEnd pp) =
      Inr (map Inr rows, None)"
    and read: "\<And>s e a b u p. rd (s, e) = Some (a, b) \<Longrightarrow>
      ok a \<and> ok b \<and> getPartitionForStartAndEnd u s e p = getPartitionForStartAndEnd u (toAny a) (toAny b) p"
    and ws: "map rd rows = map Some ws" and order: "buckets_in_order val ws"
  shows "\<exists>ps. NTileBucketPartitioningFunc uuid pp = Inr ps \<and> buckets_held val mk (addNullPartition pp) ws ps"
proof -
  have ok: "\<forall>r \<in> set ws. ok (fst r) \<and> ok (snd r) \<and> val (fst r) \<le> val (snd r)"
  proof
    fix w assume w: "w \<in> set ws"
    then have "Some w \<in> set (map rd rows)" using ws by simp
    then obtain x where "rd x = Some w" by auto
    then have "rd (fst x, snd x) = Some (fst w, snd w)" by simp
    from read [OF this] w order show "ok (fst w) \<and> ok (snd w) \<and> val (fst w) \<le> val (snd w)"
      by (auto simp: buckets_in_order_def)
  qed
  from partitions_exact [OF this, of uuid 0] order obtain p rs where
    p: "fold_res (\<lambda>(s, e) p. AddPartition uuid (toAny s) (toAny e) p) ws (NewPartitionHelper 0) = Inr p"
    "range_helper uuid toAny mk p rs" "separated val rs" "covered val rs = covered val ws" "length rs \<le> length ws"
    unfolding buckets_in_order_def by blast
  have "fold_res (\<lambda>(s, e) p. AddPartition uuid s e p) rows q =
      fold_res (\<lambda>(s, e) p. AddPartition uuid (toAny s) (toAny e) p) ws q" for q
    using ws
  proof (induction rows arbitrary: ws q)
    case (Cons x rows)
    then obtain w ws' where w: "ws = w # ws'" "rd x = Some w" "map rd rows = map Some ws'" by (cases ws) auto
    from w(2) have "rd (fst x, snd x) = Some (fst w, snd w)" by simp
    from AddPartition_read [OF conjunct2 [OF conjunct2 [OF read [OF this]]]]
    have "AddPartition uuid (fst x) (snd x) q = AddPartition uuid (toAny (fst w)) (toAny (snd w)) q" .
    moreover have "fold_res (\<lambda>(s, e) p. AddPartition uuid s e p) rows =
        fold_res (\<lambda>(s, e) p. AddPartition uuid (toAny s) (toAny e) p) ws'"
      by (rule ext) (rule Cons.IH [OF w(3)])
    ultimately show ?case using w(1) by (simp add: case_prod_unfold)
  qed simp
  with p(1) have "ntile_loop uuid (map Inr rows) (NewPartitionHelper 0) = Inr p" by (intro ntile_loop_values) simp
  then have "NTileBucketPartitioningFunc uuid pp =
      Inr (partitions p @ (if addNullPartition pp then [range_partition (uuid (drawn p)) NullRange] else []))"
    using assms(1) by (simp add: NTileBucketPartitioningFunc_def GetPartitions_def AddNullPartition_def)
  moreover have "Range (range_partition i x) = Some x" for i x by (simp add: range_partition_def)
  ultimately show ?thesis using range_helper_ranges(1) [OF p(2)] p(3-5)
    by (auto simp: buckets_held_def)
qed

end

lemma rows_read:
  "signed_row (s, e) = Some (a, b) \<Longrightarrow> getPartitionForStartAndEnd u s e p = getPartitionForStartAndEnd u (Int64V a) (Int64V b) p"
  "unsigned_row (s, e) = Some (a, b) \<Longrightarrow> getPartitionForStartAndEnd u s e p = getPartitionForStartAndEnd u (Uint64V a) (Uint64V b) p"
  "time_row (s, e) = Some (c, d) \<Longrightarrow> 1000 dvd c \<and> 1000 dvd d \<and>
     getPartitionForStartAndEnd u s e p = getPartitionForStartAndEnd u (TimeV c) (TimeV d) p"
  "tid_row (s, e) = Some (f, g) \<Longrightarrow> getPartitionForStartAndEnd u s e p = getPartitionForStartAndEnd u (tid_any f) (tid_any g) p"
  by (cases s; cases e; simp add: getPartitionForStartAndEnd_def Let_def; auto)
     (cases s; cases e; auto simp: getPartitionForStartAndEnd_def Let_def tid_any_def createTIDPartition_def proto_TID_def
        split: if_splits)+

text \<open>
  C14: partitions by buckets of rows, for columns of signed and unsigned integers of every width,
  times and tuple identifiers. If the buckets have their starts in order and no
  start after its end, as the query asks for, the partitions hold exactly the values of the
  buckets, none twice, and are at most as many, followed by the partition of the null values if it is wanted.
\<close>

theorem ntile_partitions_exact:
  assumes "ntile_query (ppTx pp) (numPartitions pp) (watermarkColumn pp) (watermarkTable pp) (lastRangeEnd pp) =
      Inr (map Inr rows, None)"
  shows "(map signed_row rows = map Some ws \<and> buckets_in_order sint ws \<longrightarrow>
       (\<exists>ps. NTileBucketPartitioningFunc uuid pp = Inr ps \<and> buckets_held sint IntRange (addNullPartition pp) ws ps)) \<and>
     (map unsigned_row rows = map Some ws \<and> buckets_in_order uint ws \<longrightarrow>
       (\<exists>ps. NTileBucketPartitioningFunc uuid pp = Inr ps \<and> buckets_held uint UintRange (addNullPartition pp) ws ps)) \<and>
     (map time_row rows = map Some ts \<and> buckets_in_order (\<lambda>t. t div 1000) ts \<longrightarrow>
       (\<exists>ps. NTileBucketPartitioningFunc uuid pp = Inr ps \<and>
          buckets_held (\<lambda>t. t div 1000) TimestampRange (addNullPartition pp) ts ps)) \<and>
     (map tid_row rows = map Some ids \<and> buckets_in_order tid_val ids \<longrightarrow>
       (\<exists>ps. NTileBucketPartitioningFunc uuid pp = Inr ps \<and>
          buckets_held tid_val (\<lambda>a b. TidRange (tid_proto a) (tid_proto b)) (addNullPartition pp) ids ps))"
proof (intro conjI impI; elim conjE)
  show "\<exists>ps. NTileBucketPartitioningFunc uuid pp = Inr ps \<and> buckets_held sint IntRange (addNullPartition pp) ws ps"
    if "map signed_row rows = map Some ws" "buckets_in_order sint ws"
    by (rule ikind.ntile_buckets [OF assms _ that]) (intro conjI TrueI rows_read(1))
  show "\<exists>ps. NTileBucketPartitioningFunc uuid pp = Inr ps \<and> buckets_held uint UintRange (addNullPartition pp) ws ps"
    if "map unsigned_row rows = map Some ws" "buckets_in_order uint ws"
    by (rule ukind.ntile_buckets [OF assms _ that]) (intro conjI TrueI rows_read(2))
  show "\<exists>ps. NTileBucketPartitioningFunc uuid pp = Inr ps \<and> buckets_held (\<lambda>t. t div 1000) TimestampRange (addNullPartition pp) ts ps"
    if "map time_row rows = map Some ts" "buckets_in_order (\<lambda>t. t div 1000) ts"
    by (rule tkind.ntile_buckets [OF assms rows_read(3) that])
  show "\<exists>ps. NTileBucketPartitioningFunc uuid pp = Inr ps \<and>
      buckets_held tid_val (\<lambda>a b. TidRange (tid_proto a) (tid_proto b)) (addNullPartition pp) ids ps"
    if "map tid_row rows = map Some ids" "buckets_in_order tid_val ids"
    by (rule tidkind.ntile_buckets [OF assms _ that]) (intro conjI TrueI rows_read(4))
qed

theorem ntile_partitions_exact_witness:
  "\<exists>ps. NTileBucketPartitioningFunc (\<lambda>n. []) pp_sample = Inr ps \<and> buckets_held sint IntRange True [(1, 4), (4, 4), (4, 9)] ps \<and>
     covered sint [(1 :: 64 word, 4 :: 64 word), (4, 4), (4, 9)] = {1..9}"
proof -
  let ?rows = "[(Int32V 1, Int32V 4), (Int32V 4, Int32V 4), (Int32V 4, Int32V 9)]" and ?ws = "[(1, 4), (4, 4), (4, 9)] :: (64 word \<times> 64 word) list"
  have q: "ntile_query (ppTx pp_sample) (numPartitions pp_sample) (watermarkColumn pp_sample) (watermarkTable pp_sample) (lastRangeEnd pp_sample) =
      Inr (map Inr ?rows, None)"
    by (simp add: pp_sample_def tx_sample_def)
  have "map signed_row ?rows = map Some ?ws" by simp
  moreover have "buckets_in_order sint ?ws" by (simp add: buckets_in_order_def)
  moreover have "addNullPartition pp_sample" by (simp add: pp_sample_def)
  moreover have "covered sint ?ws = {1..9}" by auto
  ultimately show ?thesis
    using ntile_partitions_exact [OF q, of ?ws "\<lambda>n. []" "[]" "[]"] by auto
qed

text \<open>
  C9: the whole path with a given number of partitions, for a column of integers: the partitions
  cover the range from the minimum to the maximum, are at most that many, and the null values follow if
  they are wanted.
\<close>

theorem getPartitions_minmax:
  assumes "ParseTableIdentifier (WatermarkTable config) = Inr table" and "last_range_end lastPart = Inr l"
    and "WatermarkColumn config \<noteq> ''ctid''" and "0 < NumPartitionsOverride config"
    and "minmax_query tx (QualifiedTable_String table) (QuoteIdentifier (WatermarkColumn config)) l = Inr (Int64V s, Int64V e)"
    and "sint s \<le> sint e"
  shows "\<exists>ps rs k. getPartitions uuid fuel ctidOverride tx config lastPart =
        Some (Inr (ps @ (if AddNullPartitionFlag config then [range_partition (uuid k) NullRange] else []))) \<and>
     map Range ps = map (\<lambda>r. Some (IntRange (fst r) (snd r))) rs \<and> separated sint rs \<and>
     covered sint rs = {sint s..sint e} \<and> int (length ps) \<le> uint (NumPartitionsOverride config)"
proof -
  let ?n = "ucast (NumPartitionsOverride config) :: 64 word"
  have u: "uint ?n = uint (NumPartitionsOverride config)"
    using uint32_less [of "NumPartitionsOverride config"] by (simp add: unsigned_ucast_eq take_bit_int_eq_self)
  have sn: "sint ?n = uint (NumPartitionsOverride config)"
    using sint_of_int64 [of "uint ?n"] u uint32_less [of "NumPartitionsOverride config"] uint_ge_0 [of "NumPartitionsOverride config"]
    by simp
  have n: "0 < sint ?n" using assms(4) sn by (simp add: word_less_def)
  from iuni.uniform_partitions [OF assms(6) n, of uuid 1] obtain p rs where
    p: "add_ranges uuid (\<lambda>w. Int64V w) s e ?n (NewPartitionHelper 1) = Inr p" "range_helper uuid Int64V IntRange p rs"
    "separated sint rs" "covered sint rs = {sint s..sint e}" "int (length rs) \<le> sint ?n"
    by blast
  have "AddPartitionsWithRange uuid (Int64V s) (Int64V e) ?n (NewPartitionHelper 0) = Inr p"
    using p(1) by (simp add: AddPartitionsWithRange_def ikind.get range_partition_def NewPartitionHelper_def)
  then have "getPartitions uuid fuel ctidOverride tx config lastPart =
      Some (Inr (partitions p @ (if AddNullPartitionFlag config then [range_partition (uuid (drawn p)) NullRange] else [])))"
    using assms n by (simp add: getPartitions_def MinMaxRangePartitioningFunc_def GetPartitions_def AddNullPartition_def Let_def)
  then show ?thesis using range_helper_ranges(1) [OF p(2)] range_helper_length [OF p(2)] p(3-5) sn by fastforce
qed

definition config_sample :: QRepConfig where
  "config_sample = \<lparr>NumRowsPerPartition = 100, NumPartitionsOverride = 3, WatermarkTable = ''s.t'', WatermarkColumn = ''id'',
     AddNullPartitionFlag = False\<rparr>"

theorem getPartitions_minmax_witness:
  "\<exists>ps rs. getPartitions (\<lambda>n. []) 0 False tx_sample config_sample None = Some (Inr ps) \<and>
     map Range ps = map (\<lambda>r. Some (IntRange (fst r) (snd r))) rs \<and> covered sint rs = {- 5..4}"
proof -
  obtain t where "ParseTableIdentifier (WatermarkTable config_sample) = Inr t"
    by (simp add: config_sample_def ParseTableIdentifier_def CutByte_def)
  from getPartitions_minmax [OF this, of None NilValue tx_sample "- 5" 4 "\<lambda>n. []" 0 False]
  show ?thesis by (auto simp: config_sample_def last_range_end_def tx_sample_def)
qed

end
