(* ===== verification/PgTables.thy ===== *)
theory PgTables
  imports PgPartition
begin

text \<open>
  The search for the child tables of a table ends, for every answer of the catalog that is not cyclic
  (partitions) or that is finite (inheritance), and the number of partitions it leads to is bounded.
\<close>

section \<open>Finding the child tables ends\<close>

lemma fold_opt_returns:
  assumes "\<And>x s. x \<in> set xs \<Longrightarrow> P s \<Longrightarrow> \<exists>r. f x s = Some r"
    and "\<And>x s s'. x \<in> set xs \<Longrightarrow> P s \<Longrightarrow> f x s = Some (Inr s') \<Longrightarrow> P s'" and "P s"
  shows "(\<exists>r. fold_opt f xs s = Some r) \<and> (\<forall>s'. fold_opt f xs s = Some (Inr s') \<longrightarrow> P s')"
  using assms
proof (induction xs arbitrary: s)
  case (Cons x xs)
  have "x \<in> set (x # xs)" by simp
  from Cons.prems(1) [OF this Cons.prems(3)] obtain r where r: "f x s = Some r" by blast
  show ?case
  proof (cases r)
    case (Inr s')
    have P: "P s'" by (rule Cons.prems(2) [OF \<open>x \<in> set (x # xs)\<close> Cons.prems(3)]) (simp add: r Inr)
    have "(\<exists>r. fold_opt f xs s' = Some r) \<and> (\<forall>t. fold_opt f xs s' = Some (Inr t) \<longrightarrow> P t)"
      by (rule Cons.IH [OF Cons.prems(1,2) P]) simp_all
    then show ?thesis by (simp add: r Inr)
  qed (use r in simp)
qed simp

lemma getPartitionedTables_rank:
  assumes "\<And>oid' infos info. all_rows ''failed to query child tables'' (partitions_query tx oid') = Inr infos \<Longrightarrow>
      info \<in> set infos \<Longrightarrow> tiKind info = ''p'' \<Longrightarrow> rank (tiOid info) < rank oid'"
    and "rank oid' < fuel"
  shows "\<exists>r. getPartitionedTables tx fuel oid' = Some r"
  using assms(2)
proof (induction fuel arbitrary: oid')
  case (Suc fuel)
  show ?case
  proof (cases "all_rows ''failed to query child tables'' (partitions_query tx oid')")
    case (Inr infos)
    have "\<exists>r. getPartitionedTables tx fuel (tiOid info) = Some r" if "info \<in> set infos" "tiKind info = ''p''" for info
      using Suc.IH [of "tiOid info"] assms(1) [OF Inr that] Suc.prems by simp
    then have "\<exists>r. fold_opt (\<lambda>info m.
            if tiKind info = ''p'' then
              map_option (\<lambda>r. bind_res (nested_err (''failed to get partitions of '' @ tiName info) r)
                (\<lambda>leaves. Inr (maps_Copy m leaves))) (getPartitionedTables tx fuel (tiOid info))
            else if tiBlocks info > 0 then
              Some (Inr (AList.update (tiName info) \<lparr>blockDensity = tiDensity info, blockCount = tiBlocks info\<rparr> m))
            else Some (Inr m)) infos [] = Some r"
      by (intro fold_opt_returns [where P = "\<lambda>m. True", THEN conjunct1]) auto
    then show ?thesis by (simp add: Inr)
  qed simp
qed simp

lemma getInheritedTables_fuel:
  assumes "finite U" and "\<And>oid' children child. all_rows ''failed to query child tables'' (children_query tx oid') = Inr children \<Longrightarrow>
      oid' \<in> U \<Longrightarrow> child \<in> set children \<Longrightarrow> tiOid child \<in> U"
    and "oid' \<in> U" and "oid' \<notin> V" and "card (U - V) \<le> fuel"
  shows "(\<exists>r. getInheritedTables tx fuel oid' name V = Some r) \<and>
     (\<forall>m V'. getInheritedTables tx fuel oid' name V = Some (Inr (m, V')) \<longrightarrow> V \<subseteq> V')"
  using assms(3-5)
proof (induction fuel arbitrary: oid' name V)
  case 0
  then show ?case using assms(1) by auto
next
  case (Suc fuel)
  let ?step = "\<lambda>child (m, visited).
      let m = (if tiBlocks child > 0
               then AList.update (tiName child) \<lparr>blockDensity = tiDensity child, blockCount = tiBlocks child\<rparr> m
               else m) in
      if tiHasSubclass child \<and> tiOid child \<notin> visited then
        map_option (\<lambda>r. bind_res (nested_err (''failed to get inherited tables of '' @ tiName child) r)
          (\<lambda>(childTables, visited). Inr (maps_Copy m childTables, visited)))
          (getInheritedTables tx fuel (tiOid child) (tiName child) visited)
      else Some (Inr (m, visited))"
  let ?P = "\<lambda>(m :: (string, tableBlockStats) gomap, W). insert oid' V \<subseteq> W"
  have less: "card (U - W) \<le> fuel" if "insert oid' V \<subseteq> W" for W
  proof -
    have "U - W \<subset> U - V" using that Suc.prems(1,2) by blast
    then have "card (U - W) < card (U - V)" using assms(1) by (intro psubset_card_mono) auto
    then show ?thesis using Suc.prems(3) by simp
  qed
  have fold: "(\<exists>r. fold_opt ?step children (own, insert oid' V) = Some r) \<and>
      (\<forall>s'. fold_opt ?step children (own, insert oid' V) = Some (Inr s') \<longrightarrow> ?P s')"
    if "all_rows ''failed to query child tables'' (children_query tx oid') = Inr children" for children own
  proof (rule fold_opt_returns [where P = ?P and f = ?step])
    fix child s assume c: "child \<in> set children" and s: "?P s"
    obtain m W where mW: "s = (m, W)" by fastforce
    have U: "tiOid child \<in> U" by (rule assms(2) [OF that Suc.prems(1) c])
    note IH = Suc.IH [OF U _ less, of W "tiName child"]
    show "\<exists>r. ?step child s = Some r" using IH s by (auto simp: mW Let_def)
    show "?P s'" if st: "?step child s = Some (Inr s')" for s'
    proof (cases "tiHasSubclass child \<and> tiOid child \<notin> W")
      case False
      then show ?thesis using st s by (auto simp: mW Let_def)
    next
      case True
      with st obtain r f where r: "getInheritedTables tx fuel (tiOid child) (tiName child) W = Some r"
        "bind_res (nested_err (''failed to get inherited tables of '' @ tiName child) r)
           (\<lambda>(childTables, visited). Inr (maps_Copy f childTables, visited)) = Inr s'"
        by (auto simp: mW Let_def)
      obtain ct W' where W': "r = Inr (ct, W')" "snd s' = W'"
        using r(2) by (cases r) (auto simp: nested_err_def split: pg_part_error.splits)
      have "W \<subseteq> W'" using IH True s r(1) W'(1) by (simp add: mW)
      then show ?thesis using s W'(2) by (auto simp: mW)
    qed
  qed auto
  show ?case
  proof (cases "relation_size_query tx oid'")
    case (Inr nb)
    obtain numBlocks density where nb: "nb = (numBlocks, density)" by fastforce
    let ?own = "if numBlocks > 0 then [(name, \<lparr>blockDensity = density, blockCount = numBlocks\<rparr>)] else []"
    show ?thesis
    proof (cases "all_rows ''failed to query child tables'' (children_query tx oid')")
      case (Inr children)
      have "getInheritedTables tx (Suc fuel) oid' name V = fold_opt ?step children (?own, insert oid' V)"
        unfolding getInheritedTables.simps Inr \<open>relation_size_query tx oid' = Inr nb\<close> nb sum.case prod.case Let_def ..
      note eq = this
      show ?thesis unfolding eq
      proof (intro conjI allI impI)
        show "\<exists>r. fold_opt ?step children (?own, insert oid' V) = Some r" by (rule fold [OF Inr, THEN conjunct1])
        fix m V' assume "fold_opt ?step children (?own, insert oid' V) = Some (Inr (m, V'))"
        with fold [OF Inr, of ?own] have "?P (m, V')" by blast
        then show "V \<subseteq> V'" by simp
      qed
    qed (use Inr nb in simp)
  qed simp
qed

section \<open>Properties\<close>

text \<open>
  C37: the search for child tables ends. Partitions of partitions are followed as long as the catalog
  goes down in rank, so a fuel above the rank of the table is enough; tables that inherit are
  followed once each, so the number of tables is enough, even if the catalog has cycles.
\<close>

theorem child_tables_found:
  assumes "\<forall>oid' infos. all_rows ''failed to query child tables'' (partitions_query tx oid') = Inr infos \<longrightarrow>
      (\<forall>info \<in> set infos. tiKind info = ''p'' \<longrightarrow> rank (tiOid info) < rank oid')"
    and "rank parent < fuel"
    and "finite tables" and "parent \<in> tables"
    and "\<forall>oid' \<in> tables. \<forall>children. all_rows ''failed to query child tables'' (children_query tx oid') = Inr children \<longrightarrow>
      (\<forall>child \<in> set children. tiOid child \<in> tables)"
  shows "(\<exists>r. getPartitionedTables tx fuel parent = Some r) \<and>
     (\<exists>r. getInheritedTables tx (card tables) parent name {} = Some r)"
proof
  show "\<exists>r. getPartitionedTables tx fuel parent = Some r"
    by (rule getPartitionedTables_rank [where rank = rank, OF _ assms(2)]) (use assms(1) in blast)
  show "\<exists>r. getInheritedTables tx (card tables) parent name {} = Some r"
    by (rule getInheritedTables_fuel [OF assms(3) _ assms(4), THEN conjunct1]) (use assms(5) in \<open>blast | simp\<close>)+
qed

text \<open>A catalog in which two tables inherit from each other.\<close>

definition cyclic_tx :: pg_tx where
  "cyclic_tx = tx_sample\<lparr>children_query := (\<lambda>i. Inr ([Inr \<lparr>tiName = ''c'', tiKind = ''r'', tiBlocks = 5, tiDensity = 0,
     tiOid = (if i = 1 then 2 else 1), tiHasSubclass = True\<rparr>], None))\<rparr>"

theorem child_tables_found_witness:
  "(\<exists>r. getPartitionedTables cyclic_tx 1 1 = Some r) \<and> (\<exists>r. getInheritedTables cyclic_tx (card {1, 2 :: 32 word}) 1 ''p'' {} = Some r)"
proof -
  have c: "\<forall>oid' \<in> {1, 2}. \<forall>children. all_rows ''failed to query child tables'' (children_query cyclic_tx oid') = Inr children \<longrightarrow>
      (\<forall>child \<in> set children. tiOid child \<in> {1, 2})"
    by (auto simp: cyclic_tx_def all_rows_def)
  have p: "\<forall>oid' infos. all_rows ''failed to query child tables'' (partitions_query cyclic_tx oid') = Inr infos \<longrightarrow>
      (\<forall>info \<in> set infos. tiKind info = ''p'' \<longrightarrow> (\<lambda>i. 0 :: nat) (tiOid info) < (\<lambda>i. 0) oid')"
    by (auto simp: cyclic_tx_def tx_sample_def all_rows_def)
  show ?thesis by (rule child_tables_found [OF p _ _ _ c]) simp_all
qed

text \<open>The estimate of the rows is found under the same conditions on the catalog.\<close>

lemma estimated_rows_found:
  assumes "\<forall>oid' infos. all_rows ''failed to query child tables'' (partitions_query (ppTx pp) oid') = Inr infos \<longrightarrow>
      (\<forall>info \<in> set infos. tiKind info = ''p'' \<longrightarrow> rank (tiOid info) < rank oid')"
    and "finite tables" and "card tables \<le> fuel"
    and "\<forall>oid' \<in> tables. \<forall>children. all_rows ''failed to query child tables'' (children_query (ppTx pp) oid') = Inr children \<longrightarrow>
      (\<forall>child \<in> set children. tiOid child \<in> tables)"
    and "\<forall>tc. classify_query (ppTx pp) (watermarkTable pp) = Inr (Some tc) \<longrightarrow> rank (tcOid tc) < fuel \<and> tcOid tc \<in> tables"
  shows "\<exists>r. estimated_rows fuel pp = Some r"
proof (cases "lastRangeEnd pp = NilValue \<and> (\<exists>tc. classifyTable (ppTx pp) (watermarkTable pp) = Inr tc)")
  case True
  then obtain tc where tc: "classifyTable (ppTx pp) (watermarkTable pp) = Inr tc" by blast
  then have "rank (tcOid tc) < fuel" "tcOid tc \<in> tables"
    using assms(5) by (auto simp: classifyTable_def split: sum.splits option.splits)
  moreover have "\<exists>r. getPartitionedTables (ppTx pp) fuel (tcOid tc) = Some r"
    by (rule getPartitionedTables_rank [where rank = rank]) (use assms(1) calculation in blast)+
  moreover have "\<exists>r. getInheritedTables (ppTx pp) fuel (tcOid tc) (qualifiedName tc) {} = Some r"
    by (rule getInheritedTables_fuel [OF assms(2), THEN conjunct1]) (use assms(3,4) calculation(2) in \<open>blast | simp\<close>)+
  ultimately show ?thesis using True tc by (auto simp: estimated_rows_def)
next
  case False
  then show ?thesis by (auto simp: estimated_rows_def split: sum.split)
qed

text \<open>The number of partitions for a number of rows: their quotient if it is at most 1000.\<close>

definition partitions_for :: "int \<Rightarrow> int \<Rightarrow> int \<Rightarrow> bool" where
  "partitions_for tot rows n \<longleftrightarrow>
     (if tot \<le> 0 then n = 0
      else 1 \<le> n \<and> n \<le> 1000 \<and>
        (if tot \<le> 1000 * rows then rows * (n - 1) < tot \<and> tot \<le> rows * n else 501 \<le> n))"

lemma AdjustNumPartitions_count:
  assumes "0 < sint tot" and "sint tot \<le> 2 ^ 60" and "0 < sint rows" and "sint rows \<le> 2 ^ 60"
  shows "\<exists>a. AdjustNumPartitions tot rows = Inr a \<and> partitions_for (sint tot) (sint rows) (sint (AdjustedNumPartitions a))"
proof -
  obtain a where a: "AdjustNumPartitions tot rows = Inr a" "1 \<le> sint (AdjustedNumPartitions a)"
    "sint (AdjustedNumPartitions a) \<le> 1000"
    "sint tot \<le> sint (AdjustedNumRowsPerPartition a) * sint (AdjustedNumPartitions a)"
    "AdjustedNumRowsPerPartition a \<noteq> rows \<Longrightarrow> 501 \<le> sint (AdjustedNumPartitions a)"
    using AdjustNumPartitions_bounds [OF assms] by metis
  obtain d where d: "DivCeil tot rows = Inr d" "sint rows * (sint d - 1) < sint tot" "sint tot \<le> sint rows * sint d"
    using DivCeil_exact [of tot rows] assms by auto
  show ?thesis
  proof (cases "sint tot \<le> 1000 * sint rows")
    case True
    have "sint rows * (sint d - 1) < sint rows * 1000" using d(2) True by simp
    then have "sint d - 1 < 1000" using assms(3) by (simp add: mult_less_cancel_left_pos)
    then have "AdjustedNumPartitions a = d" using a(1) d(1) by (auto simp: AdjustNumPartitions_def)
    then show ?thesis using a(1-3) d(2,3) True assms(1) by (auto simp: partitions_for_def)
  next
    case False
    have "AdjustedNumRowsPerPartition a \<noteq> rows"
    proof
      assume "AdjustedNumRowsPerPartition a = rows"
      then have "sint tot \<le> sint rows * sint (AdjustedNumPartitions a)" using a(4) by simp
      also have "\<dots> \<le> sint rows * 1000" using a(3) assms(3) by (intro mult_left_mono) simp_all
      finally show False using False by simp
    qed
    then show ?thesis using a False assms(1) by (auto simp: partitions_for_def)
  qed
qed


definition count_sample :: PartitionParams where
  "count_sample = pp_sample\<lparr>lastRangeEnd := Int64V 3, ppTx := tx_sample\<lparr>count_query := (\<lambda>t c l. Inr 70)\<rparr>\<rparr>"


lemma rollup_loop_sum:
  assumes "0 \<le> sint r"
  shows "rollup_loop ests i r =
    (let s = sint r + sum_list (map (\<lambda>e. max 0 (sint e)) ests) in
     if s < 2 ^ 63 then Some (i + length (filter (\<lambda>e. sint e \<le> 0) ests), word_of_int s) else None)"
  using assms
proof (induction ests arbitrary: i r)
  case Nil
  then show ?case using sint64_range [of r] by simp
next
  case (Cons e ests)
  let ?m = "max 0 (sint e)" and ?e = "if 0 \<le> sint e then e else 0"
  have m: "sint ?e = ?m" by simp
  have rest: "0 \<le> sum_list (map (\<lambda>e. max 0 (sint e)) ests)" by (intro sum_list_nonneg) auto
  show ?case
  proof (cases "sint r + ?m < 2 ^ 63")
    case True
    then have "sint (r + ?e) = sint r + ?m" using sint_arith64(1) [of r ?e] m Cons.prems by simp
    then show ?thesis using Cons.IH [of "r + ?e" "if sint e \<le> 0 then i + 1 else i"] Cons.prems
      by (auto simp: Let_def add.assoc)
  next
    case False
    have "r + ?e = word_of_int (sint r + ?m - 2 ^ 64)" using m by (simp add: wi_hom_syms flip: m)
    moreover have "fits64 (sint r + ?m - 2 ^ 64)" using False sint64_range [of r] sint64_range [of ?e] unfolding m by auto
    ultimately have "sint (r + ?e) = sint r + ?m - 2 ^ 64" using sint_of_int64 by metis
    then have "sint (r + ?e) < sint r" using sint64_range [of ?e] m by simp
    then show ?thesis using False rest by (auto simp: Let_def)
  qed
qed

text \<open>
  C39: the estimated rows of child tables: the sum of the estimates unless at least a fifth of them is not
  positive or the sum does not fit 64 bits; then it is 0, and the order of the tables does not matter. At exactly a fifth it
  is 0, as a comment in \<^verbatim>\<open>ComputeNumPartitions\<close> says, while the one beside the test speaks of more than a fifth.
\<close>

theorem rollup_estimates:
  "rollupSubclassCounts product stats =
     (let ests = map (\<lambda>s. sint (product (blockDensity (snd s)) (blockCount (snd s)))) stats;
          total = sum_list (map (max 0) ests) in
      if total < 2 ^ 63 \<and> 5 * length (filter (\<lambda>e. e \<le> 0) ests) < length stats then word_of_int total else 0)"
  by (simp add: rollupSubclassCounts_def rollup_loop_sum Let_def comp_def filter_map not_less)

end
